theory Spec2Isabelle
  imports Main "HOL-Library.Finite_Map" "HOL-Library.Multiset"
begin

section \<open>Decoded JSON values\<close>

text \<open>
  The message list of a conversation is what \<^verbatim>\<open>encoding/json\<close> decodes into an
  \<^verbatim>\<open>interface{}\<close>: \<^verbatim>\<open>nil\<close>, \<^verbatim>\<open>bool\<close>, \<^verbatim>\<open>float64\<close>, \<^verbatim>\<open>string\<close>, \<^verbatim>\<open>[]any\<close> and
  \<^verbatim>\<open>map[string]any\<close>. A Go map has one value per key and no order, so an object is a
  finite map. The decoder builds a tree: no two positions hold the same map object, so
  the in-place \<^verbatim>\<open>delete\<close> on a nested map is modelled by writing the changed child back
  under the key it was read from. Numbers are never inspected by the code.
\<close>

datatype json =
    JNull
  | JBool bool
  | JNum rat
  | JStr string
  | JArr "json list"
  | JObj "(string, json) fmap"

text \<open>The type assertions \<^verbatim>\<open>v.(map[string]any)\<close> and \<^verbatim>\<open>v.([]any)\<close> in their
  two-result form; a missing key reads as \<^verbatim>\<open>nil\<close>, on which both fail.\<close>

fun asMap :: "json option \<Rightarrow> (string, json) fmap option" where
  "asMap (Some (JObj m)) = Some m"
| "asMap _ = None"

fun asSlice :: "json option \<Rightarrow> json list option" where
  "asSlice (Some (JArr xs)) = Some xs"
| "asSlice _ = None"

text \<open>
  \<^verbatim>\<open>if x, ok := m[k].(map[string]any); ok { f(x) }\<close> where \<^verbatim>\<open>f\<close> mutates \<^verbatim>\<open>x\<close>:
  the map under \<open>k\<close> is replaced by its mutated self, and \<open>m\<close> is untouched when the
  assertion fails. \<open>withSlice\<close> is the same for \<^verbatim>\<open>m[k].([]any)\<close>.
\<close>

definition withMap ::
  "string \<Rightarrow> ((string, json) fmap \<Rightarrow> (string, json) fmap) \<Rightarrow>
   (string, json) fmap \<Rightarrow> (string, json) fmap" where
  "withMap k f m =
     (case asMap (fmlookup m k) of
        Some x \<Rightarrow> fmupd k (JObj (f x)) m
      | None \<Rightarrow> m)"

definition withSlice ::
  "string \<Rightarrow> (json list \<Rightarrow> json list) \<Rightarrow> (string, json) fmap \<Rightarrow> (string, json) fmap" where
  "withSlice k f m =
     (case asSlice (fmlookup m k) of
        Some xs \<Rightarrow> fmupd k (JArr (f xs)) m
      | None \<Rightarrow> m)"

text \<open>What the two do to the value stored under the key: an object (a list) is
  replaced by its image, any other value stays.\<close>

definition onObj :: "((string, json) fmap \<Rightarrow> (string, json) fmap) \<Rightarrow> json \<Rightarrow> json" where
  "onObj f v = (case v of JObj m \<Rightarrow> JObj (f m) | _ \<Rightarrow> v)"

definition onArr :: "(json list \<Rightarrow> json list) \<Rightarrow> json \<Rightarrow> json" where
  "onArr f v = (case v of JArr xs \<Rightarrow> JArr (f xs) | _ \<Rightarrow> v)"

section \<open>PruneAgentMessages\<close>

text \<open>The innermost loop: \<^verbatim>\<open>delete(dsMap, "schema")\<close> on every element of
  \<^verbatim>\<open>query.datasources\<close> that is a map.\<close>

definition pruneDsItem :: "json \<Rightarrow> json" where
  "pruneDsItem item =
     (case asMap (Some item) of
        Some dsMap \<Rightarrow> JObj (fmdrop ''schema'' dsMap)
      | None \<Rightarrow> item)"

text \<open>Block B of the source, on \<^verbatim>\<open>dataObj\<close>.\<close>

definition pruneDataObj :: "(string, json) fmap \<Rightarrow> (string, json) fmap" where
  "pruneDataObj dataObj0 =
     (let dataObj1 = fmdrop ''result'' dataObj0;
          dataObj2 = fmdrop ''formattedData'' dataObj1
      in withMap ''query'' (withSlice ''datasources'' (map pruneDsItem)) dataObj2)"

text \<open>Everything the source does once \<^verbatim>\<open>sysMsg\<close> is reached: the signatures, then
  blocks A (schema), B (data) and C (chart), in the source's order.\<close>

definition pruneSysMsg :: "(string, json) fmap \<Rightarrow> (string, json) fmap" where
  "pruneSysMsg sysMsg0 =
     (let sysMsg1 = withMap ''text'' (fmdrop ''thoughtSignature'') sysMsg0;
          sysMsg2 = fmdrop ''thoughtSignature'' sysMsg1;
          sysMsg3 = withMap ''schema''
                      (\<lambda>schemaObj. fmdrop ''datasources'' (fmdrop ''result'' schemaObj)) sysMsg2;
          sysMsg4 = withMap ''data'' pruneDataObj sysMsg3
      in withMap ''chart'' (fmdrop ''result'') sysMsg4)"

text \<open>The navigation \<^verbatim>\<open>debugInfo -> response -> data -> systemMessage\<close>: each failed
  assertion is a \<^verbatim>\<open>continue\<close>, which leaves the deletions made so far in place.\<close>

definition pruneDebugInfo :: "(string, json) fmap \<Rightarrow> (string, json) fmap" where
  "pruneDebugInfo debugInfo0 =
     (let debugInfo = fmdrop ''request'' debugInfo0
      in withMap ''response''
           (withMap ''data'' (withMap ''systemMessage'' pruneSysMsg)) debugInfo)"

definition pruneSystemBody :: "(string, json) fmap \<Rightarrow> (string, json) fmap" where
  "pruneSystemBody msgBody0 =
     (let msgBody = fmdrop ''systemMessage'' msgBody0
      in withMap ''debugInfo'' pruneDebugInfo msgBody)"

text \<open>One iteration of the loop over \<^verbatim>\<open>messages\<close>. \<^verbatim>\<open>msg["type"] == "system"\<close>
  compares an interface value with a string: true exactly when the value is that
  string.\<close>

definition pruneMessage :: "json \<Rightarrow> json" where
  "pruneMessage m =
     (case asMap (Some m) of
        None \<Rightarrow> m
      | Some msg \<Rightarrow>
          (case asMap (fmlookup msg ''message'') of
             None \<Rightarrow> m
           | Some msgBody \<Rightarrow>
               if ''userMessage'' |\<in>| fmdom msgBody
               then JObj (fmupd ''message'' (JObj (fmdrop ''debugInfo'' msgBody)) msg)
               else if fmlookup msg ''type'' = Some (JStr ''system'')
               then JObj (fmupd ''message'' (JObj (pruneSystemBody msgBody)) msg)
               else m))"

text \<open>The function mutates the elements and returns the slice it was given; the model
  returns the list of the mutated elements.\<close>

definition PruneAgentMessages :: "json list \<Rightarrow> json list" where
  "PruneAgentMessages messages = map pruneMessage messages"

subsection \<open>Vocabulary for the statements about pruning\<close>

text \<open>The value reached from a node by a path of keys, if every step is an object
  that has the key.\<close>

fun getPath :: "string list \<Rightarrow> json \<Rightarrow> json option" where
  "getPath [] v = Some v"
| "getPath (k # ks) (JObj m) =
     (case fmlookup m k of Some v \<Rightarrow> getPath ks v | None \<Rightarrow> None)"
| "getPath (k # ks) _ = None"

definition isObj :: "json option \<Rightarrow> bool" where
  "isObj v = (asMap v \<noteq> None)"

text \<open>A node the loop does not skip: an object with an object under "message".\<close>

definition hasBody :: "json \<Rightarrow> bool" where
  "hasBody node = isObj (getPath [''message''] node)"

text \<open>Detected as a user message: the body has the marker key, whatever its value.\<close>

definition isUserNode :: "json \<Rightarrow> bool" where
  "isUserNode node =
     (case asMap (getPath [''message''] node) of
        Some msgBody \<Rightarrow> ''userMessage'' |\<in>| fmdom msgBody
      | None \<Rightarrow> False)"

text \<open>Handled as a system message: a body, not detected as a user message, and the
  discriminator "system".\<close>

definition isSystemNode :: "json \<Rightarrow> bool" where
  "isSystemNode node =
     (hasBody node \<and> \<not> isUserNode node \<and> getPath [''type''] node = Some (JStr ''system''))"

text \<open>What is left of a system node when the navigation stops early: the body without
  its "systemMessage", and its debugInfo (if an object) without "request".\<close>

definition stoppedEarly :: "json \<Rightarrow> json" where
  "stoppedEarly node =
     (case asMap (Some node) of
        None \<Rightarrow> node
      | Some msg \<Rightarrow>
          JObj (withMap ''message''
                  (\<lambda>msgBody. withMap ''debugInfo'' (fmdrop ''request'')
                                (fmdrop ''systemMessage'' msgBody)) msg))"

section \<open>The sync pipeline: data and collaborators\<close>

record Config =
  LookerClientID :: string
  LookerClientSecret :: string
  LookerBaseURL :: string
  GCPProjectID :: string
  GCPRegion :: string
  BQDataset :: string
  BQTable :: string
  LookerUserQueryID :: string

text \<open>The structs \<^verbatim>\<open>User\<close>, \<^verbatim>\<open>Conversation\<close> and \<^verbatim>\<open>AuthToken\<close>. Both \<^verbatim>\<open>User\<close> and
  \<^verbatim>\<open>Conversation\<close> have a field \<^verbatim>\<open>ID\<close>; the user's fields carry a prefix here. An
  \<^verbatim>\<open>interface{}\<close> field holds decoded JSON.\<close>

record User =
  User_ID :: int
  User_Email :: string

record Conversation =
  ID :: string
  UserID :: string
  AgentID :: string
  Name :: string
  Sources :: json
  CreatedAt :: string
  UpdatedAt :: string
  Messages :: json
  ConversationAgent :: json

record AuthToken =
  AccessToken :: string
  ExpiresIn :: int

text \<open>Errors are values. \<open>Opaque\<close> is an error made outside this program (by the HTTP
  client, a reader, a JSON decoder or encoder, the multipart writer); \<open>Status\<close> is a
  \<^verbatim>\<open>fmt.Errorf\<close> that reports a status code (and the body, where the source prints it);
  \<open>Wrap\<close> is a \<^verbatim>\<open>fmt.Errorf\<close> that prefixes another error.\<close>

datatype error =
    Opaque string
  | Status string nat string
  | Wrap string error

text \<open>An HTTP request as the source builds it. The multipart body of the load job is
  kept in its two parts, the job configuration and the data; the random boundary is
  left out.\<close>

record jobConfig =
  projectId :: string
  datasetId :: string
  tableId :: string
  sourceFormat :: string
  writeDisposition :: string

datatype body = NoBody | Form string | Multipart jobConfig string

record request =
  reqMethod :: string
  reqURL :: string
  reqHeaders :: "(string \<times> string) list"
  reqBody :: body

text \<open>A response: the status code, what \<^verbatim>\<open>io.ReadAll\<close> gets from the body, and the
  error it ends with, if any.\<close>

record response =
  status :: nat
  respBody :: string
  readErr :: "error option"

text \<open>Every line the program logs, with the values it prints.\<close>

datatype logline =
    LogStarting string bool
  | LogFoundUsers nat
  | LogWorkerError nat User error
  | LogDryRun nat nat
  | LogUploadError error
  | LogFinished string nat
  | LogLoginOK string
  | LogRunningQuery string
  | LogSearchUsersFailed nat string
  | LogUsersFound nat
  | LogDetailFailed string error
  | LogSearchURL string
  | LogSearchStatus nat
  | LogSearchErrorBody string
  | LogSearchDecoded nat
  | LogMarshalWarning string error
  | LogNoRows
  | LogAttempting nat
  | LogCreatingJob string
  | LogJobCreated string
  | LogUsingEnvToken

text \<open>What a function does to the outside, in order: the HTTP requests it sends and the
  lines it logs. Every function of the pipeline returns its events with its result.\<close>

datatype event = Http request | Log logline

text \<open>
  What the program does not define is a parameter of the model: the answer of the
  network to a request (\<^verbatim>\<open>client.Do\<close>), the JSON decoders and \<^verbatim>\<open>json.Marshal\<close> of the
  standard library, the two \<^verbatim>\<open>CreatePart\<close> calls of the multipart writer, today's date
  and the environment variable \<^verbatim>\<open>GCP_ACCESS_TOKEN\<close>. Each is a function of its
  arguments: within one run the same request gets the same answer.
\<close>

record env =
  client_Do :: "request \<Rightarrow> error + response"
  decodeAuthToken :: "response \<Rightarrow> error + AuthToken"
  decodeUsers :: "response \<Rightarrow> error + User list"
  unmarshalConversations :: "string \<Rightarrow> error + Conversation list"
  decodeConversation :: "response \<Rightarrow> error + Conversation"
  decodeGCPToken :: "response \<Rightarrow> error + string"
  marshal :: "Conversation \<Rightarrow> error + string"
  createMetadataPart :: "error option"
  createDataPart :: "error option"
  today :: string
  GCP_ACCESS_TOKEN :: string

text \<open>A call either returns or panics. Only \<^verbatim>\<open>lookerLogin\<close> can panic (it slices the
  first ten bytes off the token), and \<^verbatim>\<open>runSync\<close> through it.\<close>

datatype 'a outcome = Returned 'a | Panicked

definition WorkerPoolSize :: nat where
  "WorkerPoolSize = 50"

text \<open>\<^verbatim>\<open>fmt.Sprintf("%d", n)\<close>.\<close>

definition digitChar :: "nat \<Rightarrow> char" where
  "digitChar d = ''0123456789'' ! d"

function showNat :: "nat \<Rightarrow> string" where
  "showNat n = (if n < 10 then [digitChar n] else showNat (n div 10) @ [digitChar (n mod 10)])"
  by pat_completeness auto
termination
  by (relation "measure id") auto

definition showInt :: "int \<Rightarrow> string" where
  "showInt i = (if i < 0 then ''-'' @ showNat (nat (- i)) else showNat (nat i))"

definition authHeader :: "string \<Rightarrow> string \<times> string" where
  "authHeader token = (''Authorization'', ''token '' @ token)"

section \<open>The Looker calls\<close>

definition lookerLogin ::
  "env \<Rightarrow> Config \<Rightarrow> string \<Rightarrow> string \<Rightarrow> event list \<times> (error + string) outcome" where
  "lookerLogin e cfg clientID clientSecret =
     (let req = \<lparr>reqMethod = ''POST'',
                 reqURL = LookerBaseURL cfg @ ''/api/4.0/login'',
                 reqHeaders = [(''Content-Type'', ''application/x-www-form-urlencoded'')],
                 reqBody = Form (''client_id='' @ clientID @ ''&client_secret='' @ clientSecret)\<rparr>
      in case client_Do e req of
           Inl err \<Rightarrow> ([Http req], Returned (Inl err))
         | Inr resp \<Rightarrow>
             if status resp \<noteq> 200
             then ([Http req],
                   Returned (Inl (Status ''login failed'' (status resp) (respBody resp))))
             else (case decodeAuthToken e resp of
                     Inl err \<Rightarrow> ([Http req], Returned (Inl err))
                   | Inr token \<Rightarrow>
                       if length (AccessToken token) < 10
                       then ([Http req], Panicked)
                       else ([Http req, Log (LogLoginOK (take 10 (AccessToken token)))],
                             Returned (Inr (AccessToken token)))))"

definition searchUsers :: "env \<Rightarrow> Config \<Rightarrow> string \<Rightarrow> event list \<times> (error + User list)" where
  "searchUsers e cfg token =
     (let url = LookerBaseURL cfg @ ''/api/4.0/queries/'' @ LookerUserQueryID cfg
                  @ ''/run/json?limit=-1'';
          req = \<lparr>reqMethod = ''GET'', reqURL = url, reqHeaders = [authHeader token],
                 reqBody = NoBody\<rparr>;
          evs = [Log (LogRunningQuery url), Http req]
      in case client_Do e req of
           Inl err \<Rightarrow> (evs, Inl err)
         | Inr resp \<Rightarrow>
             if status resp \<noteq> 200
             then (evs @ [Log (LogSearchUsersFailed (status resp) (respBody resp))],
                   Inl (Status ''search users failed'' (status resp) ''''))
             else (case decodeUsers e resp of
                     Inl err \<Rightarrow> (evs, Inl err)
                   | Inr users \<Rightarrow> (evs @ [Log (LogUsersFound (length users))], Inr users)))"

definition sudoLogin :: "env \<Rightarrow> Config \<Rightarrow> string \<Rightarrow> string \<Rightarrow> event list \<times> (error + string)" where
  "sudoLogin e cfg adminToken userID =
     (let req = \<lparr>reqMethod = ''POST'',
                 reqURL = LookerBaseURL cfg @ ''/api/4.0/login/'' @ userID,
                 reqHeaders = [authHeader adminToken],
                 reqBody = NoBody\<rparr>
      in case client_Do e req of
           Inl err \<Rightarrow> ([Http req], Inl err)
         | Inr resp \<Rightarrow>
             if status resp \<noteq> 200
             then ([Http req], Inl (Status ''sudo failed'' (status resp) (respBody resp)))
             else (case decodeAuthToken e resp of
                     Inl err \<Rightarrow> ([Http req], Inl err)
                   | Inr token \<Rightarrow> ([Http req], Inr (AccessToken token))))"

text \<open>\<^verbatim>\<open>logout\<close> ignores what comes back.\<close>

definition logout :: "env \<Rightarrow> Config \<Rightarrow> string \<Rightarrow> event list" where
  "logout e cfg token =
     [Http \<lparr>reqMethod = ''DELETE'', reqURL = LookerBaseURL cfg @ ''/api/4.0/logout'',
            reqHeaders = [authHeader token], reqBody = NoBody\<rparr>]"

definition searchConversations ::
  "env \<Rightarrow> Config \<Rightarrow> string \<Rightarrow> string \<Rightarrow> event list \<times> (error + Conversation list)" where
  "searchConversations e cfg token mode =
     (let url0 = LookerBaseURL cfg @ ''/api/4.0/conversations/search'';
          url = (if mode = ''daily'' then url0 @ ''?created_at='' @ today e else url0);
          req = \<lparr>reqMethod = ''GET'', reqURL = url, reqHeaders = [authHeader token],
                 reqBody = NoBody\<rparr>;
          evs = [Log (LogSearchURL url), Http req]
      in case client_Do e req of
           Inl err \<Rightarrow> (evs, Inl err)
         | Inr resp \<Rightarrow>
             (let evs1 = evs @ [Log (LogSearchStatus (status resp))]
              in case readErr resp of
                   Some err \<Rightarrow> (evs1, Inl (Wrap ''failed to read body'' err))
                 | None \<Rightarrow>
                     if status resp \<noteq> 200
                     then (evs1 @ [Log (LogSearchErrorBody (respBody resp))],
                           Inl (Status ''search failed'' (status resp) ''''))
                     else (case unmarshalConversations e (respBody resp) of
                             Inl err \<Rightarrow> (evs1, Inl (Wrap ''failed to unmarshal JSON'' err))
                           | Inr conversations \<Rightarrow>
                               (evs1 @ [Log (LogSearchDecoded (length conversations))],
                                Inr conversations))))"

definition detailFields :: string where
  "detailFields =
     ''id,agent_id,user_id,name,sources,created_at,updated_at,messages,conversation_agent''"

text \<open>\<^verbatim>\<open>getConversationDetail\<close> does not look at the status code: whatever decodes is a
  detail. A message list that is a slice is pruned.\<close>

definition getConversationDetail ::
  "env \<Rightarrow> Config \<Rightarrow> string \<Rightarrow> string \<Rightarrow> event list \<times> (error + Conversation)" where
  "getConversationDetail e cfg token convID =
     (let req = \<lparr>reqMethod = ''GET'',
                 reqURL = LookerBaseURL cfg @ ''/api/4.0/conversations/'' @ convID
                            @ ''?fields='' @ detailFields,
                 reqHeaders = [authHeader token],
                 reqBody = NoBody\<rparr>
      in case client_Do e req of
           Inl err \<Rightarrow> ([Http req], Inl err)
         | Inr resp \<Rightarrow>
             (case decodeConversation e resp of
                Inl err \<Rightarrow> ([Http req], Inl err)
              | Inr detail \<Rightarrow>
                  ([Http req],
                   Inr (case asSlice (Some (Messages detail)) of
                          Some msgs \<Rightarrow> detail\<lparr>Messages := JArr (PruneAgentMessages msgs)\<rparr>
                        | None \<Rightarrow> detail))))"

section \<open>processUser\<close>

text \<open>The loop over the listed conversations, with the slice \<^verbatim>\<open>detailed\<close> and the events
  so far as accumulators. A failed detail fetch is logged and the loop goes on.\<close>

fun fetchDetails ::
  "env \<Rightarrow> Config \<Rightarrow> string \<Rightarrow> Conversation list \<Rightarrow> event list \<Rightarrow> Conversation list \<Rightarrow>
   event list \<times> Conversation list" where
  "fetchDetails e cfg userToken [] evs detailed = (evs, detailed)"
| "fetchDetails e cfg userToken (c # cs) evs detailed =
     (case getConversationDetail e cfg userToken (ID c) of
        (ev, Inl err) \<Rightarrow>
          fetchDetails e cfg userToken cs (evs @ ev @ [Log (LogDetailFailed (ID c) err)]) detailed
      | (ev, Inr detail) \<Rightarrow>
          fetchDetails e cfg userToken cs (evs @ ev) (detailed @ [detail]))"

text \<open>The deferred \<^verbatim>\<open>logout\<close> runs on every return after the sudo login succeeded.\<close>

definition processUser ::
  "env \<Rightarrow> Config \<Rightarrow> string \<Rightarrow> User \<Rightarrow> string \<Rightarrow> string \<Rightarrow>
   event list \<times> (error + Conversation list)" where
  "processUser e cfg adminToken user mode userID =
     (case sudoLogin e cfg adminToken userID of
        (ev1, Inl err) \<Rightarrow> (ev1, Inl (Wrap ''sudo failed'' err))
      | (ev1, Inr userToken) \<Rightarrow>
          (case searchConversations e cfg userToken mode of
             (ev2, Inl err) \<Rightarrow>
               (ev1 @ ev2 @ logout e cfg userToken, Inl (Wrap ''search failed'' err))
           | (ev2, Inr conversations) \<Rightarrow>
               if length conversations = 0
               then (ev1 @ ev2 @ logout e cfg userToken, Inr [])
               else (case fetchDetails e cfg userToken conversations [] [] of
                       (ev3, detailed) \<Rightarrow>
                         (ev1 @ ev2 @ ev3 @ logout e cfg userToken, Inr detailed))))"

section \<open>The worker pool\<close>

text \<open>
  \<^verbatim>\<open>runSync\<close> starts the workers, sends every user into the buffered \<^verbatim>\<open>userChan\<close>,
  closes it, starts a goroutine that closes \<^verbatim>\<open>convChan\<close> once the wait group is done,
  and then receives from \<^verbatim>\<open>convChan\<close> until it is closed and empty. The goroutines run
  concurrently; what they share are the two channels and the wait group. The model is
  the interleaving of their channel operations: a state of the pool, and one action per
  operation, enabled when the operation would not block. A run of the pool is a list of
  actions (chosen by the Go scheduler) that are enabled one after the other.

  A worker is at its \<^verbatim>\<open>range userChan\<close> (\<open>Receiving\<close>), at its send
  \<^verbatim>\<open>convChan <- conversations\<close> (\<open>Sending\<close>), or has returned (\<open>Exited\<close>, which is its
  \<^verbatim>\<open>wg.Done()\<close>). The call of \<^verbatim>\<open>processUser\<close> touches nothing shared, so it is taken
  together with the receive that starts it. The fields \<open>fetched\<close> (the users
  \<^verbatim>\<open>processUser\<close> was called on, in the order of the calls) and \<open>wtrace\<close> (the events
  of the workers) only record what happened.
\<close>

datatype worker = Receiving | Sending "Conversation list" | Exited

record pool =
  feed :: "User list"
  userChan :: "User list"
  userClosed :: bool
  workers :: "worker list"
  convChan :: "Conversation list list"
  convClosed :: bool
  drained :: "Conversation list list"
  fetched :: "User list"
  wtrace :: "event list"

datatype action = Feed | CloseUsers | Recv nat | Send nat | Exit nat | CloseConv | Drain

type_synonym proc = "User \<Rightarrow> event list \<times> (error + Conversation list)"

text \<open>The body of the worker's loop after the receive: log and go on when
  \<^verbatim>\<open>processUser\<close> failed, send when it returned records, go on when it returned none.\<close>

definition afterFetch ::
  "nat \<Rightarrow> User \<Rightarrow> event list \<times> (error + Conversation list) \<Rightarrow> pool \<Rightarrow> pool" where
  "afterFetch workerID user r s =
     (case r of
        (ev, Inl err) \<Rightarrow> s\<lparr>wtrace := wtrace s @ ev @ [Log (LogWorkerError workerID user err)]\<rparr>
      | (ev, Inr conversations) \<Rightarrow>
          if length conversations > 0
          then s\<lparr>wtrace := wtrace s @ ev,
                 workers := (workers s)[workerID := Sending conversations]\<rparr>
          else s\<lparr>wtrace := wtrace s @ ev\<rparr>)"

text \<open>
  One action. \<open>cap\<close> is the capacity of both channels (\<^verbatim>\<open>len(users)\<close>); \<open>consumer\<close>
  says whether the calling goroutine comes to receive from \<^verbatim>\<open>convChan\<close>. The result is
  \<open>None\<close> when the operation would block or is not what the goroutine does next.
  \<^item> \<open>Feed\<close>: \<^verbatim>\<open>userChan <- user\<close> for the next user.
  \<^item> \<open>CloseUsers\<close>: \<^verbatim>\<open>close(userChan)\<close>, after the last send.
  \<^item> \<open>Recv i\<close>: worker \<open>i\<close> receives a user and processes it.
  \<^item> \<open>Send i\<close>: worker \<open>i\<close> sends its batch.
  \<^item> \<open>Exit i\<close>: worker \<open>i\<close> finds \<^verbatim>\<open>userChan\<close> closed and empty and returns.
  \<^item> \<open>CloseConv\<close>: \<^verbatim>\<open>wg.Wait()\<close> returns and \<^verbatim>\<open>convChan\<close> is closed; that goroutine
    is started after \<^verbatim>\<open>close(userChan)\<close>.
  \<^item> \<open>Drain\<close>: the calling goroutine receives a batch; it does so after
    \<^verbatim>\<open>close(userChan)\<close>.
\<close>

fun step :: "proc \<Rightarrow> nat \<Rightarrow> bool \<Rightarrow> action \<Rightarrow> pool \<Rightarrow> pool option" where
  "step p cap consumer Feed s =
     (case feed s of
        [] \<Rightarrow> None
      | u # us \<Rightarrow>
          if length (userChan s) < cap
          then Some (s\<lparr>feed := us, userChan := userChan s @ [u]\<rparr>)
          else None)"
| "step p cap consumer CloseUsers s =
     (if feed s = [] \<and> \<not> userClosed s then Some (s\<lparr>userClosed := True\<rparr>) else None)"
| "step p cap consumer (Recv i) s =
     (if i < length (workers s) \<and> workers s ! i = Receiving
      then (case userChan s of
              [] \<Rightarrow> None
            | u # q \<Rightarrow>
                Some (afterFetch i u (p u) (s\<lparr>userChan := q, fetched := fetched s @ [u]\<rparr>)))
      else None)"
| "step p cap consumer (Send i) s =
     (if i < length (workers s)
      then (case workers s ! i of
              Sending conversations \<Rightarrow>
                if length (convChan s) < cap
                then Some (s\<lparr>convChan := convChan s @ [conversations],
                            workers := (workers s)[i := Receiving]\<rparr>)
                else None
            | _ \<Rightarrow> None)
      else None)"
| "step p cap consumer (Exit i) s =
     (if i < length (workers s) \<and> workers s ! i = Receiving \<and> userChan s = [] \<and> userClosed s
      then Some (s\<lparr>workers := (workers s)[i := Exited]\<rparr>)
      else None)"
| "step p cap consumer CloseConv s =
     (if userClosed s \<and> list_all (\<lambda>w. w = Exited) (workers s) \<and> \<not> convClosed s
      then Some (s\<lparr>convClosed := True\<rparr>)
      else None)"
| "step p cap consumer Drain s =
     (if consumer \<and> userClosed s
      then (case convChan s of
              [] \<Rightarrow> None
            | b # bs \<Rightarrow> Some (s\<lparr>convChan := bs, drained := drained s @ [b]\<rparr>))
      else None)"

fun exec :: "proc \<Rightarrow> nat \<Rightarrow> bool \<Rightarrow> action list \<Rightarrow> pool \<Rightarrow> pool option" where
  "exec p cap consumer [] s = Some s"
| "exec p cap consumer (a # as) s =
     (case step p cap consumer a s of
        None \<Rightarrow> None
      | Some s' \<Rightarrow> exec p cap consumer as s')"

definition initPool :: "nat \<Rightarrow> User list \<Rightarrow> pool" where
  "initPool W users =
     \<lparr>feed = users, userChan = [], userClosed = False, workers = replicate W Receiving,
      convChan = [], convClosed = False, drained = [], fetched = [], wtrace = []\<rparr>"

text \<open>The pool is done when \<^verbatim>\<open>convChan\<close> is closed and, if somebody receives from it,
  empty: that is when the \<^verbatim>\<open>range convChan\<close> of the calling goroutine ends.\<close>

definition finished :: "bool \<Rightarrow> pool \<Rightarrow> bool" where
  "finished consumer s = (convClosed s \<and> (consumer \<longrightarrow> convChan s = []))"

text \<open>The state a schedule ends in, if it is a complete run of a pool of \<open>W\<close> workers
  over \<open>users\<close>.\<close>

definition runPool :: "proc \<Rightarrow> nat \<Rightarrow> bool \<Rightarrow> User list \<Rightarrow> action list \<Rightarrow> pool option" where
  "runPool p W consumer users sched =
     (case exec p (length users) consumer sched (initPool W users) of
        None \<Rightarrow> None
      | Some s \<Rightarrow> if finished consumer s then Some s else None)"

section \<open>The load job\<close>

definition getGCPToken :: "env \<Rightarrow> event list \<times> (error + string)" where
  "getGCPToken e =
     (if GCP_ACCESS_TOKEN e \<noteq> ''''
      then ([Log LogUsingEnvToken], Inr (GCP_ACCESS_TOKEN e))
      else (let req = \<lparr>reqMethod = ''GET'',
                       reqURL = ''http://metadata.google.internal/computeMetadata/v1/instance/service-accounts/default/token'',
                       reqHeaders = [(''Metadata-Flavor'', ''Google'')],
                       reqBody = NoBody\<rparr>
            in case client_Do e req of
                 Inl err \<Rightarrow> ([Http req], Inl err)
               | Inr resp \<Rightarrow>
                   (case decodeGCPToken e resp of
                      Inl err \<Rightarrow> ([Http req], Inl err)
                    | Inr token \<Rightarrow> ([Http req], Inr token))))"

text \<open>The two nested loops that fill the buffer \<^verbatim>\<open>ndjson\<close>: the events, the buffer and
  \<^verbatim>\<open>totalRows\<close> are the accumulator. A record that does not marshal is logged and
  skipped.\<close>

fun marshalBatch ::
  "env \<Rightarrow> Conversation list \<Rightarrow> event list \<times> string \<times> nat \<Rightarrow> event list \<times> string \<times> nat" where
  "marshalBatch e [] acc = acc"
| "marshalBatch e (c # cs) (evs, ndjson, totalRows) =
     (case marshal e c of
        Inl err \<Rightarrow>
          marshalBatch e cs (evs @ [Log (LogMarshalWarning (ID c) err)], ndjson, totalRows)
      | Inr b \<Rightarrow> marshalBatch e cs (evs, ndjson @ b @ [CHR 0x0A], totalRows + 1))"

fun marshalAll ::
  "env \<Rightarrow> Conversation list list \<Rightarrow> event list \<times> string \<times> nat \<Rightarrow> event list \<times> string \<times> nat" where
  "marshalAll e [] acc = acc"
| "marshalAll e (data # rest) acc = marshalAll e rest (marshalBatch e data acc)"

definition loadRequest :: "Config \<Rightarrow> string \<Rightarrow> string \<Rightarrow> request" where
  "loadRequest cfg gcpToken ndjson =
     \<lparr>reqMethod = ''POST'',
      reqURL = ''https://bigquery.googleapis.com/upload/bigquery/v2/projects/''
                 @ GCPProjectID cfg @ ''/jobs?uploadType=multipart'',
      reqHeaders = [(''Authorization'', ''Bearer '' @ gcpToken),
                    (''Content-Type'', ''multipart/related'')],
      reqBody = Multipart
                  \<lparr>projectId = GCPProjectID cfg, datasetId = BQDataset cfg,
                   tableId = BQTable cfg, sourceFormat = ''NEWLINE_DELIMITED_JSON'',
                   writeDisposition = ''WRITE_APPEND''\<rparr>
                  ndjson\<rparr>"

text \<open>\<open>batches\<close> is what \<^verbatim>\<open>range convChan\<close> yields, in order. The token is fetched
  before the first receive; without a token nothing is received.\<close>

definition insertToBigQuery ::
  "env \<Rightarrow> Config \<Rightarrow> Conversation list list \<Rightarrow> event list \<times> nat \<times> error option" where
  "insertToBigQuery e cfg batches =
     (case getGCPToken e of
        (ev0, Inl err) \<Rightarrow> (ev0, 0, Some (Wrap ''failed to get GCP token'' err))
      | (ev0, Inr gcpToken) \<Rightarrow>
          (case marshalAll e batches (ev0, [], 0) of
             (ev1, ndjson, totalRows) \<Rightarrow>
               if totalRows = 0 then (ev1 @ [Log LogNoRows], 0, None)
               else (let ev2 = ev1 @ [Log (LogAttempting totalRows)]
                     in case createMetadataPart e of
                          Some err \<Rightarrow> (ev2, totalRows, Some err)
                        | None \<Rightarrow>
                            (case createDataPart e of
                               Some err \<Rightarrow> (ev2, totalRows, Some err)
                             | None \<Rightarrow>
                                 (let req = loadRequest cfg gcpToken ndjson;
                                      ev3 = ev2 @ [Log (LogCreatingJob (reqURL req)), Http req]
                                  in case client_Do e req of
                                       Inl err \<Rightarrow> (ev3, totalRows, Some err)
                                     | Inr resp \<Rightarrow>
                                         if status resp \<noteq> 200
                                         then (ev3, totalRows,
                                               Some (Status ''BQ job creation failed''
                                                       (status resp) (respBody resp)))
                                         else (ev3 @ [Log (LogJobCreated (respBody resp))],
                                               totalRows, None))))))"

section \<open>runSync\<close>

text \<open>
  What a run leaves behind: what \<^verbatim>\<open>runSync\<close> returns (or that it panicked), the events
  of the calling goroutine in program order, the events of the workers in the order of
  the schedule, the batches the calling goroutine received from \<^verbatim>\<open>convChan\<close>, and the
  users \<^verbatim>\<open>processUser\<close> was called on. The workers run beside the calling goroutine;
  no order between the two lists of events is modelled.
\<close>

record run =
  result :: "error option outcome"
  mainEvents :: "event list"
  workerEvents :: "event list"
  received :: "Conversation list list"
  processed :: "User list"

definition noPool :: "error option outcome \<Rightarrow> event list \<Rightarrow> run" where
  "noPool r evs =
     \<lparr>result = r, mainEvents = evs, workerEvents = [], received = [], processed = []\<rparr>"

text \<open>What a worker does with a user: \<^verbatim>\<open>processUser(adminToken, user, mode, userID)\<close>
  with \<^verbatim>\<open>userID := fmt.Sprintf("%d", user.ID)\<close>.\<close>

definition procOf :: "env \<Rightarrow> Config \<Rightarrow> string \<Rightarrow> string \<Rightarrow> proc" where
  "procOf e cfg adminToken mode =
     (\<lambda>user. processUser e cfg adminToken user mode (showInt (User_ID user)))"

definition gotToken :: "env \<Rightarrow> bool" where
  "gotToken e = (case snd (getGCPToken e) of Inl _ \<Rightarrow> False | Inr _ \<Rightarrow> True)"

text \<open>
  \<open>sched\<close> is the interleaving of the pool; the result is \<open>None\<close> when \<open>sched\<close> is not a
  complete run of the pool. The calling goroutine receives from \<^verbatim>\<open>convChan\<close> in a dry
  run, and in a live run once \<^verbatim>\<open>insertToBigQuery\<close> has its token. The error of
  \<^verbatim>\<open>insertToBigQuery\<close> is logged; \<^verbatim>\<open>runSync\<close> then logs that it finished and returns
  \<^verbatim>\<open>nil\<close>.
\<close>

definition runSync :: "env \<Rightarrow> Config \<Rightarrow> string \<Rightarrow> bool \<Rightarrow> action list \<Rightarrow> run option" where
  "runSync e cfg mode dryRun sched =
     (let ev0 = [Log (LogStarting mode dryRun)]
      in case lookerLogin e cfg (LookerClientID cfg) (LookerClientSecret cfg) of
           (ev1, Panicked) \<Rightarrow> Some (noPool Panicked (ev0 @ ev1))
         | (ev1, Returned (Inl err)) \<Rightarrow>
             Some (noPool (Returned (Some (Wrap ''failed to login as admin'' err))) (ev0 @ ev1))
         | (ev1, Returned (Inr adminToken)) \<Rightarrow>
             (case searchUsers e cfg adminToken of
                (ev2, Inl err) \<Rightarrow>
                  Some (noPool (Returned (Some (Wrap ''failed to fetch users'' err)))
                          (ev0 @ ev1 @ ev2))
              | (ev2, Inr users) \<Rightarrow>
                  (let ev = ev0 @ ev1 @ ev2 @ [Log (LogFoundUsers (length users))]
                   in case runPool (procOf e cfg adminToken mode) WorkerPoolSize
                             (dryRun \<or> gotToken e) users sched of
                        None \<Rightarrow> None
                      | Some s \<Rightarrow>
                          if dryRun
                          then Some
                            \<lparr>result = Returned None,
                             mainEvents = ev @
                               [Log (LogDryRun (sum_list (map length (drained s)))
                                       (length (drained s))),
                                Log (LogFinished mode (sum_list (map length (drained s))))],
                             workerEvents = wtrace s, received = drained s,
                             processed = fetched s\<rparr>
                          else (case insertToBigQuery e cfg (drained s) of
                                  (ev3, totalConversations, err) \<Rightarrow>
                                    Some
                                      \<lparr>result = Returned None,
                                       mainEvents = ev @ ev3 @
                                         (case err of
                                            None \<Rightarrow> []
                                          | Some x \<Rightarrow> [Log (LogUploadError x)]) @
                                         [Log (LogFinished mode totalConversations)],
                                       workerEvents = wtrace s, received = drained s,
                                       processed = fetched s\<rparr>))))"

section \<open>Vocabulary for the statements about a run\<close>

text \<open>The load jobs among some events: the data parts of the multipart requests.\<close>

fun loadJobs :: "event list \<Rightarrow> string list" where
  "loadJobs [] = []"
| "loadJobs (Http req # evs) =
     (case reqBody req of
        Multipart config ndjson \<Rightarrow> ndjson # loadJobs evs
      | _ \<Rightarrow> loadJobs evs)"
| "loadJobs (Log l # evs) = loadJobs evs"

definition submissions :: "run \<Rightarrow> string list" where
  "submissions r = loadJobs (mainEvents r @ workerEvents r)"

text \<open>What a call of \<^verbatim>\<open>processUser\<close> contributes to \<^verbatim>\<open>convChan\<close>: its records as one
  batch if it returned some, nothing if it failed or returned none.\<close>

fun contribution :: "error + Conversation list \<Rightarrow> Conversation list list" where
  "contribution (Inl err) = []"
| "contribution (Inr conversations) = (if conversations = [] then [] else [conversations])"

definition batchesOf :: "proc \<Rightarrow> User list \<Rightarrow> Conversation list list" where
  "batchesOf p users = concat (map (\<lambda>u. contribution (snd (p u))) users)"

text \<open>The state of a pool is past its start: what a schedule reaches from
  \<open>initPool\<close>.\<close>

definition isRun :: "proc \<Rightarrow> nat \<Rightarrow> bool \<Rightarrow> User list \<Rightarrow> action list \<Rightarrow> pool \<Rightarrow> bool" where
  "isRun p W consumer users sched s =
     (exec p (length users) consumer sched (initPool W users) = Some s)"

text \<open>The actions a state enables, among those of a pool of \<open>W\<close> workers.\<close>

definition actionsOf :: "nat \<Rightarrow> action list" where
  "actionsOf W =
     [Feed, CloseUsers, CloseConv, Drain] @ map Recv [0..<W] @ map Send [0..<W]
       @ map Exit [0..<W]"

definition enabled :: "proc \<Rightarrow> nat \<Rightarrow> bool \<Rightarrow> pool \<Rightarrow> action list" where
  "enabled p cap consumer s =
     filter (\<lambda>a. step p cap consumer a s \<noteq> None) (actionsOf (length (workers s)))"

text \<open>A bound on what is left to do: every action lowers it.\<close>

definition sendingCount :: "worker list \<Rightarrow> nat" where
  "sendingCount ws = length (filter (\<lambda>w. w \<noteq> Receiving \<and> w \<noteq> Exited) ws)"

definition work :: "pool \<Rightarrow> nat" where
  "work s =
     4 * length (feed s) + 3 * length (userChan s) + (if userClosed s then 0 else 1)
       + 2 * sendingCount (workers s)
       + length (filter (\<lambda>w. w \<noteq> Exited) (workers s))
       + length (convChan s) + (if convClosed s then 0 else 1)"

text \<open>The batches of the workers that are at their send.\<close>

fun sendingOf :: "worker list \<Rightarrow> Conversation list list" where
  "sendingOf [] = []"
| "sendingOf (Sending conversations # ws) = conversations # sendingOf ws"
| "sendingOf (w # ws) = sendingOf ws"

text \<open>
  What holds in every state of a pool of \<open>W\<close> workers over \<open>users\<close>: every user is
  waiting to be sent, in \<^verbatim>\<open>userChan\<close>, or fetched; every batch that a fetch produced is
  at a worker's send, in \<^verbatim>\<open>convChan\<close>, or received; \<^verbatim>\<open>userChan\<close> is closed after the
  last send only; a worker returns only when \<^verbatim>\<open>userChan\<close> is closed and empty; and
  \<^verbatim>\<open>convChan\<close> is closed only when every worker has returned.
\<close>

definition poolInv :: "proc \<Rightarrow> nat \<Rightarrow> User list \<Rightarrow> pool \<Rightarrow> bool" where
  "poolInv p W users s =
     (length (workers s) = W \<and>
      mset (feed s) + mset (userChan s) + mset (fetched s) = mset users \<and>
      mset (drained s) + mset (convChan s) + mset (sendingOf (workers s)) =
        mset (batchesOf p (fetched s)) \<and>
      (userClosed s \<longrightarrow> feed s = []) \<and>
      (Exited \<in> set (workers s) \<longrightarrow> userClosed s \<and> userChan s = []) \<and>
      (convClosed s \<longrightarrow> userClosed s \<and> list_all (\<lambda>w. w = Exited) (workers s)))"

text \<open>The admin token and the users of a run, when the login and the user search both
  succeed.\<close>

definition discovered :: "env \<Rightarrow> Config \<Rightarrow> (string \<times> User list) option" where
  "discovered e cfg =
     (case snd (lookerLogin e cfg (LookerClientID cfg) (LookerClientSecret cfg)) of
        Returned (Inr adminToken) \<Rightarrow>
          (case snd (searchUsers e cfg adminToken) of
             Inr users \<Rightarrow> Some (adminToken, users)
           | Inl err \<Rightarrow> None)
      | _ \<Rightarrow> None)"

text \<open>The rows and the payload that some records make: a record counts, and gives a
  line, when it marshals.\<close>

definition marshals :: "env \<Rightarrow> Conversation \<Rightarrow> bool" where
  "marshals e c = (case marshal e c of Inl err \<Rightarrow> False | Inr b \<Rightarrow> True)"

definition rowsOf :: "env \<Rightarrow> Conversation list list \<Rightarrow> nat" where
  "rowsOf e batches = length (filter (marshals e) (concat batches))"

definition ndjsonOf :: "env \<Rightarrow> Conversation list \<Rightarrow> string" where
  "ndjsonOf e cs =
     concat (map (\<lambda>c. case marshal e c of Inl err \<Rightarrow> [] | Inr b \<Rightarrow> b @ [CHR 0x0A]) cs)"

text \<open>The total record count of a run: the records that the discovered users'
  fetches returned and that marshal. It does not depend on the schedule.\<close>

definition totalRows :: "env \<Rightarrow> Config \<Rightarrow> string \<Rightarrow> nat" where
  "totalRows e cfg mode =
     (case discovered e cfg of
        None \<Rightarrow> 0
      | Some (adminToken, users) \<Rightarrow> rowsOf e (batchesOf (procOf e cfg adminToken mode) users))"

text \<open>For \<^verbatim>\<open>processUser\<close>: what the detail fetch of a listed record returns, and the
  details of the records whose fetch succeeded, in the order of the listing.\<close>

definition detailOf :: "env \<Rightarrow> Config \<Rightarrow> string \<Rightarrow> Conversation \<Rightarrow> error + Conversation" where
  "detailOf e cfg userToken c = snd (getConversationDetail e cfg userToken (ID c))"

definition fetchedDetails ::
  "env \<Rightarrow> Config \<Rightarrow> string \<Rightarrow> Conversation list \<Rightarrow> Conversation list" where
  "fetchedDetails e cfg userToken cs =
     concat (map (\<lambda>c. case detailOf e cfg userToken c of Inl err \<Rightarrow> [] | Inr d \<Rightarrow> [d]) cs)"

definition detailRequest :: "Config \<Rightarrow> string \<Rightarrow> string \<Rightarrow> request" where
  "detailRequest cfg token convID =
     \<lparr>reqMethod = ''GET'',
      reqURL = LookerBaseURL cfg @ ''/api/4.0/conversations/'' @ convID
                 @ ''?fields='' @ detailFields,
      reqHeaders = [authHeader token],
      reqBody = NoBody\<rparr>"

subsection \<open>Sample messages\<close>

text \<open>A user message with a debugInfo field and two other body fields.\<close>

definition sampleUserNode :: json where
  "sampleUserNode =
     JObj (fmap_of_list
       [(''type'', JStr ''user''),
        (''id'', JStr ''m1''),
        (''message'', JObj (fmap_of_list
           [(''userMessage'', JObj (fmap_of_list [(''text'', JStr ''hi'')])),
            (''debugInfo'', JObj (fmap_of_list [(''request'', JStr ''raw'')])),
            (''timestamp'', JStr ''t0'')]))])"

text \<open>A system message of kind schema, with the whole path present.\<close>

definition sampleSchemaObj :: "(string, json) fmap" where
  "sampleSchemaObj =
     fmap_of_list
       [(''kind'', JStr ''schema''),
        (''result'', JObj (fmap_of_list [(''rows'', JArr [JNum 1, JNum 2])])),
        (''datasources'', JArr [JStr ''ds1''])]"

definition sampleSystemNode :: json where
  "sampleSystemNode =
     JObj (fmap_of_list
       [(''type'', JStr ''system''),
        (''message'', JObj (fmap_of_list
           [(''systemMessage'', JObj (fmap_of_list [(''kind'', JStr ''schema'')])),
            (''debugInfo'', JObj (fmap_of_list
               [(''request'', JStr ''raw''),
                (''response'', JObj (fmap_of_list
                   [(''data'', JObj (fmap_of_list
                      [(''systemMessage'', JObj (fmap_of_list
                         [(''thoughtSignature'', JStr ''sig''),
                          (''schema'', JObj sampleSchemaObj)]))]))]))]))]))])"

text \<open>A system message whose debugInfo has a request but whose response is a string.\<close>

definition sampleBrokenNode :: json where
  "sampleBrokenNode =
     JObj (fmap_of_list
       [(''type'', JStr ''system''),
        (''message'', JObj (fmap_of_list
           [(''systemMessage'', JStr ''copy''),
            (''debugInfo'', JObj (fmap_of_list
               [(''request'', JStr ''raw''),
                (''response'', JStr ''not an object'')]))]))])"

text \<open>A node of another discriminator, and a list element that is no object.\<close>

definition sampleOtherNode :: json where
  "sampleOtherNode =
     JObj (fmap_of_list
       [(''type'', JStr ''tool''),
        (''message'', JObj (fmap_of_list
           [(''systemMessage'', JStr ''copy''),
            (''debugInfo'', JObj (fmap_of_list [(''request'', JStr ''raw'')]))]))])"

definition sampleMessages :: "json list" where
  "sampleMessages = [JStr ''noise'', sampleOtherNode, sampleBrokenNode]"

subsection \<open>A sample run: three principals\<close>

text \<open>
  Principal 1 fails at listing (the search answers 500), principal 2 has no
  conversation, principal 3 has two. A principal 9, who is not among the discovered
  users, has three, and the detail of the second does not decode. In daily mode no
  listing decodes. The sample network answers 200 with the URL as
  body, except to the search, which it answers by the token of the request; the load
  endpoint answers with the status \<open>bq\<close>, and the metadata server cannot be reached. The
  sample decoders read these bodies. A record marshals to its ID.
\<close>

definition sampleConfig :: Config where
  "sampleConfig =
     \<lparr>LookerClientID = ''id'', LookerClientSecret = ''secret'', LookerBaseURL = ''L'',
      GCPProjectID = ''p'', GCPRegion = ''r'', BQDataset = ''d'', BQTable = ''t'',
      LookerUserQueryID = ''7''\<rparr>"

definition sampleUsers :: "User list" where
  "sampleUsers =
     [\<lparr>User_ID = 1, User_Email = ''a@x''\<rparr>, \<lparr>User_ID = 2, User_Email = ''b@x''\<rparr>,
      \<lparr>User_ID = 3, User_Email = ''c@x''\<rparr>]"

definition sampleConv :: "string \<Rightarrow> json \<Rightarrow> Conversation" where
  "sampleConv convID msgs =
     \<lparr>ID = convID, UserID = ''3'', AgentID = ''agent'', Name = ''chat'', Sources = JNull,
      CreatedAt = ''t0'', UpdatedAt = ''t1'', Messages = msgs, ConversationAgent = JNull\<rparr>"

definition sampleDo :: "nat \<Rightarrow> request \<Rightarrow> error + response" where
  "sampleDo bq req =
     (case reqBody req of
        Multipart config ndjson \<Rightarrow> Inr \<lparr>status = bq, respBody = ''bq says'', readErr = None\<rparr>
      | _ \<Rightarrow>
          if reqHeaders req = [(''Metadata-Flavor'', ''Google'')]
          then Inl (Opaque ''unreachable'')
          else if reqURL req = ''L/api/4.0/conversations/search''
          then Inr \<lparr>status = (if reqHeaders req = [authHeader ''tok1''] then 500 else 200),
                    respBody = concat (map snd (reqHeaders req)), readErr = None\<rparr>
          else Inr \<lparr>status = 200, respBody = reqURL req, readErr = None\<rparr>)"

definition sampleEnv :: "string \<Rightarrow> nat \<Rightarrow> env" where
  "sampleEnv tokenVar bq =
     \<lparr>client_Do = sampleDo bq,
      decodeAuthToken = (\<lambda>resp.
        if respBody resp = ''L/api/4.0/login''
        then Inr \<lparr>AccessToken = ''admin-token'', ExpiresIn = 3600\<rparr>
        else Inr \<lparr>AccessToken = ''tok'' @ drop 16 (respBody resp), ExpiresIn = 3600\<rparr>),
      decodeUsers = (\<lambda>resp. Inr sampleUsers),
      unmarshalConversations = (\<lambda>b.
        if b = ''token tok2'' then Inr []
        else if b = ''token tok3''
        then Inr [sampleConv ''c1'' JNull, sampleConv ''c2'' JNull]
        else if b = ''token tok9''
        then Inr [sampleConv ''c1'' JNull, sampleConv ''c9'' JNull, sampleConv ''c2'' JNull]
        else Inl (Opaque ''not a list'')),
      decodeConversation = (\<lambda>resp.
        if take 26 (respBody resp) = ''L/api/4.0/conversations/c1''
        then Inr (sampleConv ''c1'' (JArr [sampleUserNode]))
        else if take 26 (respBody resp) = ''L/api/4.0/conversations/c2''
        then Inr (sampleConv ''c2'' JNull)
        else Inl (Opaque ''not a conversation'')),
      decodeGCPToken = (\<lambda>resp. Inl (Opaque ''no token'')),
      marshal = (\<lambda>c. Inr (ID c)),
      createMetadataPart = None,
      createDataPart = None,
      today = ''2026-01-01'',
      GCP_ACCESS_TOKEN = tokenVar\<rparr>"

text \<open>A schedule: the three users are sent, the channel is closed, workers 0, 1 and 2
  take one user each, worker 2 sends its batch, every worker returns, the results
  channel is closed; \<open>sampleSched\<close> then receives the batch.\<close>

definition sampleSchedNoDrain :: "action list" where
  "sampleSchedNoDrain =
     [Feed, Feed, Feed, CloseUsers, Recv 0, Recv 1, Recv 2, Send 2]
       @ map Exit [0..<50] @ [CloseConv]"

text \<open>The same when no worker has anything to send.\<close>

definition sampleSchedEmpty :: "action list" where
  "sampleSchedEmpty =
     [Feed, Feed, Feed, CloseUsers, Recv 0, Recv 1, Recv 2] @ map Exit [0..<50] @ [CloseConv]"

definition sampleSched :: "action list" where
  "sampleSched = sampleSchedNoDrain @ [Drain]"

text \<open>A pool of two workers over the three principals: worker 0 takes the first and
  the third, worker 1 the second.\<close>

definition samplePoolSched :: "action list" where
  "samplePoolSched =
     [Feed, Feed, Feed, CloseUsers, Recv 0, Recv 1, Recv 0, Exit 1, Send 0, Exit 0,
      CloseConv, Drain]"

definition samplePoolEnd :: "pool option" where
  "samplePoolEnd =
     exec (procOf (sampleEnv ''gcp'' 200) sampleConfig ''admin-token'' ''historical'') 3 True
       samplePoolSched (initPool 2 sampleUsers)"

text \<open>The sample runs: live with a token and an accepting warehouse, live with a
  token and a warehouse that answers 500, live without a token, and live in daily
  mode, where nothing is collected.\<close>

definition sampleRun :: "run option" where
  "sampleRun = runSync (sampleEnv ''gcp'' 200) sampleConfig ''historical'' False sampleSched"

definition sampleRunRejected :: "run option" where
  "sampleRunRejected =
     runSync (sampleEnv ''gcp'' 500) sampleConfig ''historical'' False sampleSched"

definition sampleRunNoToken :: "run option" where
  "sampleRunNoToken =
     runSync (sampleEnv [] 200) sampleConfig ''historical'' False sampleSchedNoDrain"

definition sampleRunEmpty :: "run option" where
  "sampleRunEmpty =
     runSync (sampleEnv ''gcp'' 200) sampleConfig ''daily'' False sampleSchedEmpty"

text \<open>The load job of the sample run.\<close>

definition sampleLoadRequest :: request where
  "sampleLoadRequest =
     loadRequest sampleConfig ''gcp'' (''c1'' @ [CHR 0x0A] @ ''c2'' @ [CHR 0x0A])"

definition loadJobCount :: "run option \<Rightarrow> nat option" where
  "loadJobCount r = map_option (\<lambda>x. length (submissions x)) r"

section \<open>Properties of PruneAgentMessages\<close>

subsection \<open>Type assertions and the mutation of nested maps\<close>

lemma asMap_Some_iff: "asMap x = Some m \<longleftrightarrow> x = Some (JObj m)"
  by (cases x rule: asMap.cases) auto

lemma asMap_None_iff: "asMap x = None \<longleftrightarrow> (\<forall>m. x \<noteq> Some (JObj m))"
  by (cases x rule: asMap.cases) auto

lemma isObj_iff: "isObj x \<longleftrightarrow> (\<exists>m. x = Some (JObj m))"
  by (cases x rule: asMap.cases) (auto simp: isObj_def)

lemma fmupd_same: "fmlookup m k = Some v \<Longrightarrow> fmupd k v m = m"
  by (rule fmap_ext) auto

lemma withMap_lookup:
  "fmlookup (withMap k f m) k' =
     (if k' = k then map_option (onObj f) (fmlookup m k) else fmlookup m k')"
  by (cases "fmlookup m k" rule: asMap.cases) (auto simp: withMap_def onObj_def)

lemma withSlice_lookup:
  "fmlookup (withSlice k f m) k' =
     (if k' = k then map_option (onArr f) (fmlookup m k) else fmlookup m k')"
  by (cases "fmlookup m k" rule: asSlice.cases) (auto simp: withSlice_def onArr_def)

lemma withMap_object: "fmlookup m k = Some (JObj x) \<Longrightarrow> withMap k f m = fmupd k (JObj (f x)) m"
  by (simp add: withMap_def)

lemma withMap_skip: "\<not> isObj (fmlookup m k) \<Longrightarrow> withMap k f m = m"
  by (simp add: withMap_def isObj_def)

lemma withMap_fixed: "fmlookup m k = Some (JObj x) \<Longrightarrow> f x = x \<Longrightarrow> withMap k f m = m"
  by (simp add: withMap_def fmupd_same)

lemma onObj_idem: "(\<And>m. f (f m) = f m) \<Longrightarrow> onObj f (onObj f v) = onObj f v"
  by (cases v) (simp_all add: onObj_def)

lemma onArr_idem: "(\<And>m. f (f m) = f m) \<Longrightarrow> onArr f (onArr f v) = onArr f v"
  by (cases v) (simp_all add: onArr_def)

lemma withMap_idem:
  assumes "\<And>m. f (f m) = f m"
  shows "withMap k f (withMap k f m) = withMap k f m"
  by (rule fmap_ext) (simp add: withMap_lookup option.map_comp comp_def onObj_idem assms)

lemma withSlice_idem:
  assumes "\<And>m. f (f m) = f m"
  shows "withSlice k f (withSlice k f m) = withSlice k f m"
  by (rule fmap_ext) (simp add: withSlice_lookup option.map_comp comp_def onArr_idem assms)

subsection \<open>Idempotence, level by level\<close>

lemma pruneDsItem_idem: "pruneDsItem (pruneDsItem x) = pruneDsItem x"
  by (cases x) (simp_all add: pruneDsItem_def)

lemma map_pruneDsItem_idem: "map pruneDsItem (map pruneDsItem xs) = map pruneDsItem xs"
  by (simp add: pruneDsItem_idem)

lemma pruneQuery_idem:
  "onObj (withSlice ''datasources'' (map pruneDsItem))
     (onObj (withSlice ''datasources'' (map pruneDsItem)) v) =
   onObj (withSlice ''datasources'' (map pruneDsItem)) v"
  by (intro onObj_idem withSlice_idem map_pruneDsItem_idem)

lemma pruneDataObj_lookup:
  "fmlookup (pruneDataObj d) k =
     (if k = ''result'' \<or> k = ''formattedData'' then None
      else if k = ''query''
      then map_option (onObj (withSlice ''datasources'' (map pruneDsItem))) (fmlookup d k)
      else fmlookup d k)"
  by (simp add: pruneDataObj_def withMap_lookup)

lemma pruneDataObj_idem: "pruneDataObj (pruneDataObj d) = pruneDataObj d"
  by (rule fmap_ext)
     (simp add: pruneDataObj_lookup option.map_comp comp_def pruneQuery_idem)

lemma pruneSysMsg_lookup:
  "fmlookup (pruneSysMsg s) k =
     (if k = ''thoughtSignature'' then None
      else if k = ''text'' then map_option (onObj (fmdrop ''thoughtSignature'')) (fmlookup s k)
      else if k = ''schema''
      then map_option (onObj (\<lambda>schemaObj. fmdrop ''datasources'' (fmdrop ''result'' schemaObj)))
             (fmlookup s k)
      else if k = ''data'' then map_option (onObj pruneDataObj) (fmlookup s k)
      else if k = ''chart'' then map_option (onObj (fmdrop ''result'')) (fmlookup s k)
      else fmlookup s k)"
  by (simp add: pruneSysMsg_def withMap_lookup)

lemma pruneSysMsg_idem: "pruneSysMsg (pruneSysMsg s) = pruneSysMsg s"
  by (rule fmap_ext)
     (simp add: pruneSysMsg_lookup option.map_comp comp_def onObj_idem pruneDataObj_idem
        fmdrop_comm)

lemma pruneDebugInfo_idem: "pruneDebugInfo (pruneDebugInfo d) = pruneDebugInfo d"
  by (rule fmap_ext)
     (simp add: pruneDebugInfo_def withMap_lookup option.map_comp comp_def onObj_idem
        withMap_idem pruneSysMsg_idem)

lemma pruneSystemBody_idem: "pruneSystemBody (pruneSystemBody b) = pruneSystemBody b"
  by (rule fmap_ext)
     (simp add: pruneSystemBody_def withMap_lookup option.map_comp comp_def onObj_idem
        pruneDebugInfo_idem)

lemma pruneSystemBody_userMessage:
  "''userMessage'' |\<in>| fmdom (pruneSystemBody b) \<longleftrightarrow> ''userMessage'' |\<in>| fmdom b"
  by (simp add: fmlookup_dom_iff pruneSystemBody_def withMap_lookup)

lemma pruneMessage_idem: "pruneMessage (pruneMessage m) = pruneMessage m"
proof (cases m)
  case (JObj msg)
  show ?thesis
  proof (cases "fmlookup msg ''message''" rule: asMap.cases)
    case (1 msgBody)
    then show ?thesis
      using JObj
      by (simp add: pruneMessage_def pruneSystemBody_userMessage pruneSystemBody_idem)
  qed (simp_all add: pruneMessage_def JObj)
qed (simp_all add: pruneMessage_def)

text \<open>
  C3. The record transform is idempotent: pruning a message list that has already been
  pruned changes nothing, whatever the list holds.
\<close>

theorem PruneAgentMessages_idempotent:
  "PruneAgentMessages (PruneAgentMessages messages) = PruneAgentMessages messages"
  by (simp add: PruneAgentMessages_def pruneMessage_idem)

subsection \<open>What happens to one node\<close>

lemma pruneMessage_no_body: "\<not> hasBody node \<Longrightarrow> pruneMessage node = node"
  by (cases node)
     (auto simp: pruneMessage_def hasBody_def isObj_def split: option.splits)

lemma hasBodyE:
  assumes "hasBody node"
  obtains msg msgBody where "node = JObj msg" and "fmlookup msg ''message'' = Some (JObj msgBody)"
  using assms
  by (cases node) (auto simp: hasBody_def isObj_iff split: option.splits)

lemma pruneMessage_user:
  assumes "fmlookup msg ''message'' = Some (JObj msgBody)"
    and "''userMessage'' |\<in>| fmdom msgBody"
  shows "pruneMessage (JObj msg) =
         JObj (fmupd ''message'' (JObj (fmdrop ''debugInfo'' msgBody)) msg)"
  using assms by (simp add: pruneMessage_def)

lemma pruneMessage_system:
  assumes "fmlookup msg ''message'' = Some (JObj msgBody)"
    and "''userMessage'' |\<notin>| fmdom msgBody"
    and "fmlookup msg ''type'' = Some (JStr ''system'')"
  shows "pruneMessage (JObj msg) =
         JObj (fmupd ''message'' (JObj (pruneSystemBody msgBody)) msg)"
  using assms by (simp add: pruneMessage_def)

lemma pruneMessage_other:
  assumes "\<not> isUserNode node" and "getPath [''type''] node \<noteq> Some (JStr ''system'')"
  shows "pruneMessage node = node"
proof (cases "hasBody node")
  case True
  then obtain msg msgBody where
    n: "node = JObj msg" and b: "fmlookup msg ''message'' = Some (JObj msgBody)"
    by (rule hasBodyE)
  from assms(1) n b have "''userMessage'' |\<notin>| fmdom msgBody"
    by (simp add: isUserNode_def)
  moreover from assms(2) n have "fmlookup msg ''type'' \<noteq> Some (JStr ''system'')"
    by (auto split: option.splits)
  ultimately show ?thesis
    using n b by (simp add: pruneMessage_def)
qed (rule pruneMessage_no_body)

lemma isSystemNodeE:
  assumes "isSystemNode node"
  obtains msg msgBody where "node = JObj msg"
    and "fmlookup msg ''message'' = Some (JObj msgBody)"
    and "''userMessage'' |\<notin>| fmdom msgBody"
    and "fmlookup msg ''type'' = Some (JStr ''system'')"
proof -
  from assms have "hasBody node" by (simp add: isSystemNode_def)
  then obtain msg msgBody where
    n: "node = JObj msg" and b: "fmlookup msg ''message'' = Some (JObj msgBody)"
    by (rule hasBodyE)
  from assms n b have "''userMessage'' |\<notin>| fmdom msgBody"
    by (simp add: isSystemNode_def isUserNode_def)
  moreover from assms n have "fmlookup msg ''type'' = Some (JStr ''system'')"
    by (auto simp: isSystemNode_def split: option.splits)
  ultimately show thesis using n b that by blast
qed

lemma getPath_Nil: "getPath [] v = Some r \<longleftrightarrow> v = r"
  by simp

lemma getPath_Cons:
  "getPath (k # ks) v = Some r \<longleftrightarrow>
     (\<exists>m v'. v = JObj m \<and> fmlookup m k = Some v' \<and> getPath ks v' = Some r)"
  by (cases v) (auto split: option.splits)

text \<open>
  C4. A node with a body that has the user-message marker and a debugInfo field: after
  the transform the body has no debugInfo, every other field of the body is what it was,
  and so is every field of the node other than the body.
\<close>

theorem user_message_loses_only_debugInfo:
  assumes "i < length messages"
    and "messages ! i = JObj msg"
    and "fmlookup msg ''message'' = Some (JObj msgBody)"
    and "''userMessage'' |\<in>| fmdom msgBody"
    and "''debugInfo'' |\<in>| fmdom msgBody"
  shows "\<exists>msg' msgBody'.
           PruneAgentMessages messages ! i = JObj msg' \<and>
           fmlookup msg' ''message'' = Some (JObj msgBody') \<and>
           ''debugInfo'' |\<notin>| fmdom msgBody' \<and>
           (\<forall>k. k \<noteq> ''debugInfo'' \<longrightarrow> fmlookup msgBody' k = fmlookup msgBody k) \<and>
           (\<forall>k. k \<noteq> ''message'' \<longrightarrow> fmlookup msg' k = fmlookup msg k)"
proof -
  have "PruneAgentMessages messages ! i =
        JObj (fmupd ''message'' (JObj (fmdrop ''debugInfo'' msgBody)) msg)"
    using assms by (simp add: PruneAgentMessages_def pruneMessage_user)
  then show ?thesis by simp
qed

theorem user_message_loses_only_debugInfo_witness:
  "\<exists>msg msgBody msg' msgBody'.
     [sampleUserNode] ! 0 = JObj msg \<and>
     fmlookup msg ''message'' = Some (JObj msgBody) \<and>
     ''userMessage'' |\<in>| fmdom msgBody \<and>
     ''debugInfo'' |\<in>| fmdom msgBody \<and>
     PruneAgentMessages [sampleUserNode] ! 0 = JObj msg' \<and>
     fmlookup msg' ''message'' = Some (JObj msgBody') \<and>
     ''debugInfo'' |\<notin>| fmdom msgBody' \<and>
     fmlookup msgBody' ''timestamp'' = Some (JStr ''t0'') \<and>
     fmlookup msg' ''id'' = Some (JStr ''m1'')"
proof -
  let ?body = "fmap_of_list
           [(''userMessage'', JObj (fmap_of_list [(''text'', JStr ''hi'')])),
            (''debugInfo'', JObj (fmap_of_list [(''request'', JStr ''raw'')])),
            (''timestamp'', JStr ''t0'')]"
  let ?msg = "fmap_of_list
       [(''type'', JStr ''user''), (''id'', JStr ''m1''), (''message'', JObj ?body)]"
  have h1: "[sampleUserNode] ! 0 = JObj ?msg" by (simp add: sampleUserNode_def)
  have h2: "fmlookup ?msg ''message'' = Some (JObj ?body)" by (simp add: fmlookup_of_list)
  have h3: "''userMessage'' |\<in>| fmdom ?body" by simp
  have h4: "''debugInfo'' |\<in>| fmdom ?body" by simp
  from user_message_loses_only_debugInfo [OF _ h1 h2 h3 h4]
  obtain msg' msgBody' where
    r: "PruneAgentMessages [sampleUserNode] ! 0 = JObj msg'"
       "fmlookup msg' ''message'' = Some (JObj msgBody')"
       "''debugInfo'' |\<notin>| fmdom msgBody'"
       "\<forall>k. k \<noteq> ''debugInfo'' \<longrightarrow> fmlookup msgBody' k = fmlookup ?body k"
       "\<forall>k. k \<noteq> ''message'' \<longrightarrow> fmlookup msg' k = fmlookup ?msg k"
    by auto
  from r(4) have "fmlookup msgBody' ''timestamp'' = Some (JStr ''t0'')"
    by (simp add: fmlookup_of_list)
  moreover from r(5) have "fmlookup msg' ''id'' = Some (JStr ''m1'')"
    by (simp add: fmlookup_of_list)
  ultimately show ?thesis
    using h1 h2 h3 h4 r(1-3) by blast
qed

lemma pruneSystemBody_debugInfo:
  "fmlookup msgBody ''debugInfo'' = Some (JObj debugInfo) \<Longrightarrow>
   fmlookup (pruneSystemBody msgBody) ''debugInfo'' = Some (JObj (pruneDebugInfo debugInfo))"
  by (simp add: pruneSystemBody_def withMap_lookup onObj_def)

lemma pruneDebugInfo_request: "fmlookup (pruneDebugInfo debugInfo) ''request'' = None"
  by (simp add: pruneDebugInfo_def withMap_lookup)

lemma pruneDebugInfo_sysMsg:
  assumes "fmlookup debugInfo ''response'' = Some (JObj response)"
    and "fmlookup response ''data'' = Some (JObj respData)"
    and "fmlookup respData ''systemMessage'' = Some (JObj sysMsg)"
  shows "getPath (''response'' # ''data'' # ''systemMessage'' # ks)
           (JObj (pruneDebugInfo debugInfo)) =
         getPath ks (JObj (pruneSysMsg sysMsg))"
  using assms by (simp add: pruneDebugInfo_def withMap_lookup onObj_def)

text \<open>
  C5. A node handled as a system message whose path debugInfo, response, data,
  systemMessage, schema leads to an object: after the transform the path still leads to
  an object, that object has neither "result" nor "datasources", and each of its other
  fields (a "kind" discriminator, say) is what it was.
\<close>

theorem system_schema_loses_result_and_datasources:
  assumes "i < length messages"
    and "isSystemNode (messages ! i)"
    and "getPath [''message'', ''debugInfo'', ''response'', ''data'', ''systemMessage'', ''schema'']
           (messages ! i) = Some (JObj schemaObj)"
  shows "\<exists>schemaObj'.
           getPath [''message'', ''debugInfo'', ''response'', ''data'', ''systemMessage'', ''schema'']
             (PruneAgentMessages messages ! i) = Some (JObj schemaObj') \<and>
           ''result'' |\<notin>| fmdom schemaObj' \<and>
           ''datasources'' |\<notin>| fmdom schemaObj' \<and>
           (\<forall>k. k \<noteq> ''result'' \<and> k \<noteq> ''datasources'' \<longrightarrow>
                fmlookup schemaObj' k = fmlookup schemaObj k)"
proof -
  from assms(2) obtain msg msgBody where
    n: "messages ! i = JObj msg" and
    b: "fmlookup msg ''message'' = Some (JObj msgBody)" and
    u: "''userMessage'' |\<notin>| fmdom msgBody" and
    t: "fmlookup msg ''type'' = Some (JStr ''system'')"
    by (rule isSystemNodeE)
  from assms(3) n b obtain debugInfo response respData sysMsg where
    p: "fmlookup msgBody ''debugInfo'' = Some (JObj debugInfo)"
       "fmlookup debugInfo ''response'' = Some (JObj response)"
       "fmlookup response ''data'' = Some (JObj respData)"
       "fmlookup respData ''systemMessage'' = Some (JObj sysMsg)"
       "fmlookup sysMsg ''schema'' = Some (JObj schemaObj)"
    by (auto simp: getPath_Cons getPath_Nil simp del: getPath.simps)
  let ?s = "fmdrop ''datasources'' (fmdrop ''result'' schemaObj)"
  have "fmlookup (pruneSysMsg sysMsg) ''schema'' = Some (JObj ?s)"
    using p(5) by (simp add: pruneSysMsg_lookup onObj_def)
  then have "getPath [''response'', ''data'', ''systemMessage'', ''schema'']
          (JObj (pruneDebugInfo debugInfo)) = Some (JObj ?s)"
    by (subst pruneDebugInfo_sysMsg [OF p(2-4)]) simp
  with pruneSystemBody_debugInfo [OF p(1)]
  have "getPath [''message'', ''debugInfo'', ''response'', ''data'', ''systemMessage'', ''schema'']
          (pruneMessage (JObj msg)) = Some (JObj ?s)"
    by (simp add: pruneMessage_system [OF b u t])
  then have "getPath [''message'', ''debugInfo'', ''response'', ''data'', ''systemMessage'', ''schema'']
          (PruneAgentMessages messages ! i) = Some (JObj ?s)"
    using assms(1) n by (simp add: PruneAgentMessages_def)
  then show ?thesis by auto
qed

lemma sampleSystemNode_isSystemNode: "isSystemNode sampleSystemNode"
  by (simp add: isSystemNode_def hasBody_def isUserNode_def isObj_def sampleSystemNode_def
      fmlookup_of_list)

theorem system_schema_loses_result_and_datasources_witness:
  "isSystemNode ([sampleSystemNode] ! 0) \<and>
   getPath [''message'', ''debugInfo'', ''response'', ''data'', ''systemMessage'', ''schema'']
     ([sampleSystemNode] ! 0) = Some (JObj sampleSchemaObj) \<and>
   fmlookup sampleSchemaObj ''result'' \<noteq> None \<and>
   fmlookup sampleSchemaObj ''datasources'' \<noteq> None \<and>
   (\<exists>schemaObj'.
      getPath [''message'', ''debugInfo'', ''response'', ''data'', ''systemMessage'', ''schema'']
        (PruneAgentMessages [sampleSystemNode] ! 0) = Some (JObj schemaObj') \<and>
      ''result'' |\<notin>| fmdom schemaObj' \<and>
      ''datasources'' |\<notin>| fmdom schemaObj' \<and>
      fmlookup schemaObj' ''kind'' = Some (JStr ''schema''))"
proof -
  have h1: "isSystemNode ([sampleSystemNode] ! 0)"
    by (simp add: sampleSystemNode_isSystemNode)
  have h2: "getPath [''message'', ''debugInfo'', ''response'', ''data'', ''systemMessage'', ''schema'']
     ([sampleSystemNode] ! 0) = Some (JObj sampleSchemaObj)"
    by (simp add: sampleSystemNode_def fmlookup_of_list)
  have h3: "fmlookup sampleSchemaObj ''result'' \<noteq> None \<and>
            fmlookup sampleSchemaObj ''datasources'' \<noteq> None \<and>
            fmlookup sampleSchemaObj ''kind'' = Some (JStr ''schema'')"
    by (simp add: sampleSchemaObj_def fmlookup_of_list)
  from system_schema_loses_result_and_datasources [OF _ h1 h2]
  obtain schemaObj' where
    r: "getPath [''message'', ''debugInfo'', ''response'', ''data'', ''systemMessage'', ''schema'']
          (PruneAgentMessages [sampleSystemNode] ! 0) = Some (JObj schemaObj')"
       "''result'' |\<notin>| fmdom schemaObj'"
       "''datasources'' |\<notin>| fmdom schemaObj'"
       "\<forall>k. k \<noteq> ''result'' \<and> k \<noteq> ''datasources'' \<longrightarrow>
            fmlookup schemaObj' k = fmlookup sampleSchemaObj k"
    by auto
  from r(4) h3 have "fmlookup schemaObj' ''kind'' = Some (JStr ''schema'')"
    by simp
  with h1 h2 h3 r(1-3) show ?thesis by blast
qed

text \<open>
  C10. A node handled as a system message whose body has an object under "debugInfo":
  after the transform that object has no "request" key. Nothing is assumed about
  "response" or anything below it.
\<close>

theorem system_debugInfo_loses_request:
  assumes "i < length messages"
    and "isSystemNode (messages ! i)"
    and "getPath [''message'', ''debugInfo''] (messages ! i) = Some (JObj debugInfo)"
  shows "\<exists>debugInfo'.
           getPath [''message'', ''debugInfo''] (PruneAgentMessages messages ! i) =
             Some (JObj debugInfo') \<and>
           ''request'' |\<notin>| fmdom debugInfo'"
proof -
  from assms(2) obtain msg msgBody where
    n: "messages ! i = JObj msg" and
    b: "fmlookup msg ''message'' = Some (JObj msgBody)" and
    u: "''userMessage'' |\<notin>| fmdom msgBody" and
    t: "fmlookup msg ''type'' = Some (JStr ''system'')"
    by (rule isSystemNodeE)
  from assms(3) n b have p: "fmlookup msgBody ''debugInfo'' = Some (JObj debugInfo)"
    by (auto split: option.splits)
  have "getPath [''message'', ''debugInfo''] (pruneMessage (JObj msg)) =
          Some (JObj (pruneDebugInfo debugInfo))"
    using pruneSystemBody_debugInfo [OF p] by (simp add: pruneMessage_system [OF b u t])
  then have "getPath [''message'', ''debugInfo''] (PruneAgentMessages messages ! i) =
          Some (JObj (pruneDebugInfo debugInfo))"
    using assms(1) n by (simp add: PruneAgentMessages_def)
  moreover have "''request'' |\<notin>| fmdom (pruneDebugInfo debugInfo)"
    by (rule fmdom_notI) (rule pruneDebugInfo_request)
  ultimately show ?thesis by blast
qed

lemma sampleBrokenNode_isSystemNode: "isSystemNode sampleBrokenNode"
  by (simp add: isSystemNode_def hasBody_def isUserNode_def isObj_def sampleBrokenNode_def
      fmlookup_of_list)

theorem system_debugInfo_loses_request_witness:
  "isSystemNode ([sampleBrokenNode] ! 0) \<and>
   getPath [''message'', ''debugInfo''] ([sampleBrokenNode] ! 0) =
     Some (JObj (fmap_of_list [(''request'', JStr ''raw''),
                               (''response'', JStr ''not an object'')])) \<and>
   (\<exists>debugInfo'.
      getPath [''message'', ''debugInfo''] (PruneAgentMessages [sampleBrokenNode] ! 0) =
        Some (JObj debugInfo') \<and>
      ''request'' |\<notin>| fmdom debugInfo')"
proof -
  have h1: "isSystemNode ([sampleBrokenNode] ! 0)"
    by (simp add: sampleBrokenNode_isSystemNode)
  have h2: "getPath [''message'', ''debugInfo''] ([sampleBrokenNode] ! 0) =
     Some (JObj (fmap_of_list [(''request'', JStr ''raw''),
                               (''response'', JStr ''not an object'')]))"
    by (simp add: sampleBrokenNode_def fmlookup_of_list)
  from system_debugInfo_loses_request [OF _ h1 h2] h1 h2 show ?thesis
    by simp
qed

subsection \<open>Shape tolerance\<close>

lemma navigation_stops:
  assumes "\<not> isObj (getPath [''response'', ''data'', ''systemMessage''] (JObj debugInfo))"
  shows "withMap ''response'' (withMap ''data'' (withMap ''systemMessage'' f)) debugInfo =
         debugInfo"
proof (cases "fmlookup debugInfo ''response''" rule: asMap.cases)
  case (1 response)
  show ?thesis
  proof (cases "fmlookup response ''data''" rule: asMap.cases)
    case (1 respData)
    have "\<not> isObj (fmlookup respData ''systemMessage'')"
      using assms \<open>fmlookup debugInfo ''response'' = Some (JObj response)\<close> 1
      by (auto simp: isObj_iff split: option.splits)
    then have "withMap ''systemMessage'' f respData = respData"
      by (rule withMap_skip)
    then have "withMap ''data'' (withMap ''systemMessage'' f) response = response"
      using 1 by (simp add: withMap_fixed)
    then show ?thesis
      using \<open>fmlookup debugInfo ''response'' = Some (JObj response)\<close>
      by (simp add: withMap_fixed)
  next
    case "2_1"
    then have "withMap ''data'' (withMap ''systemMessage'' f) response = response"
      by (simp add: withMap_def)
    then show ?thesis
      using \<open>fmlookup debugInfo ''response'' = Some (JObj response)\<close>
      by (simp add: withMap_fixed)
  qed (simp_all add: withMap_def fmupd_same
        \<open>fmlookup debugInfo ''response'' = Some (JObj response)\<close>)
qed (simp_all add: withMap_def)

lemma pruneMessage_stopped:
  assumes "isSystemNode node"
    and "\<not> isObj (getPath [''message'', ''debugInfo'', ''response'', ''data'', ''systemMessage'']
                    node)"
  shows "pruneMessage node = stoppedEarly node"
proof -
  from assms(1) obtain msg msgBody where
    n: "node = JObj msg" and
    b: "fmlookup msg ''message'' = Some (JObj msgBody)" and
    u: "''userMessage'' |\<notin>| fmdom msgBody" and
    t: "fmlookup msg ''type'' = Some (JStr ''system'')"
    by (rule isSystemNodeE)
  let ?b = "fmdrop ''systemMessage'' msgBody"
  have "withMap ''debugInfo'' pruneDebugInfo ?b = withMap ''debugInfo'' (fmdrop ''request'') ?b"
  proof (cases "fmlookup msgBody ''debugInfo''" rule: asMap.cases)
    case (1 debugInfo)
    have "\<not> isObj (getPath [''response'', ''data'', ''systemMessage'']
                  (JObj (fmdrop ''request'' debugInfo)))"
      using assms(2) n b 1 by (auto simp: isObj_iff split: option.splits)
    then have "pruneDebugInfo debugInfo = fmdrop ''request'' debugInfo"
      by (simp add: pruneDebugInfo_def navigation_stops)
    then show ?thesis using 1 by (simp add: withMap_def)
  qed (simp_all add: withMap_def)
  then have "pruneSystemBody msgBody = withMap ''debugInfo'' (fmdrop ''request'') ?b"
    by (simp add: pruneSystemBody_def)
  then show ?thesis
    using n by (simp add: pruneMessage_system [OF b u t] stoppedEarly_def withMap_object [OF b])
qed

text \<open>
  C8. The source has no failing path: every type assertion is in its two-result form,
  \<^verbatim>\<open>delete\<close> is defined on every map, and the comparison with "system" is between an
  interface value and a string. So the model is a total function with no error value,
  and for every input list:
  the result has one element per input element;
  an element that is not an object with an object under "message" is returned as it is;
  so is a node that is not detected as a user message and whose discriminator is not
  "system";
  and a node handled as a system message whose path debugInfo, response, data,
  systemMessage does not lead to an object keeps only the deletions made before the
  navigation stopped (the body's "systemMessage", and "request" if debugInfo is an
  object).
\<close>

theorem PruneAgentMessages_shape_tolerant:
  "length (PruneAgentMessages messages) = length messages \<and>
   (\<forall>i < length messages.
      \<not> hasBody (messages ! i) \<longrightarrow> PruneAgentMessages messages ! i = messages ! i) \<and>
   (\<forall>i < length messages.
      \<not> isUserNode (messages ! i) \<and> getPath [''type''] (messages ! i) \<noteq> Some (JStr ''system'')
      \<longrightarrow> PruneAgentMessages messages ! i = messages ! i) \<and>
   (\<forall>i < length messages.
      isSystemNode (messages ! i) \<and>
      \<not> isObj (getPath [''message'', ''debugInfo'', ''response'', ''data'', ''systemMessage'']
                 (messages ! i))
      \<longrightarrow> PruneAgentMessages messages ! i = stoppedEarly (messages ! i))"
  by (simp add: PruneAgentMessages_def pruneMessage_no_body pruneMessage_other
      pruneMessage_stopped)

theorem PruneAgentMessages_shape_tolerant_witness:
  "length (PruneAgentMessages sampleMessages) = 3 \<and>
   \<not> hasBody (sampleMessages ! 0) \<and>
   PruneAgentMessages sampleMessages ! 0 = JStr ''noise'' \<and>
   \<not> isUserNode (sampleMessages ! 1) \<and>
   getPath [''type''] (sampleMessages ! 1) \<noteq> Some (JStr ''system'') \<and>
   PruneAgentMessages sampleMessages ! 1 = sampleOtherNode \<and>
   isSystemNode (sampleMessages ! 2) \<and>
   \<not> isObj (getPath [''message'', ''debugInfo'', ''response'', ''data'', ''systemMessage'']
              (sampleMessages ! 2)) \<and>
   PruneAgentMessages sampleMessages ! 2 = stoppedEarly sampleBrokenNode \<and>
   getPath [''message'', ''debugInfo'', ''response'']
     (PruneAgentMessages sampleMessages ! 2) = Some (JStr ''not an object'') \<and>
   getPath [''message'', ''systemMessage''] (PruneAgentMessages sampleMessages ! 2) = None"
proof -
  have h0: "\<not> hasBody (sampleMessages ! 0)"
    by (simp add: sampleMessages_def hasBody_def isObj_def)
  have h1: "\<not> isUserNode (sampleMessages ! 1) \<and>
            getPath [''type''] (sampleMessages ! 1) \<noteq> Some (JStr ''system'')"
    by (simp add: sampleMessages_def sampleOtherNode_def isUserNode_def fmlookup_of_list)
  have h2: "isSystemNode (sampleMessages ! 2) \<and>
            \<not> isObj (getPath [''message'', ''debugInfo'', ''response'', ''data'', ''systemMessage'']
              (sampleMessages ! 2))"
    by (simp add: sampleMessages_def sampleBrokenNode_isSystemNode)
       (simp add: sampleBrokenNode_def fmlookup_of_list isObj_def)
  have e: "getPath [''message'', ''debugInfo'', ''response''] (stoppedEarly sampleBrokenNode) =
             Some (JStr ''not an object'') \<and>
           getPath [''message'', ''systemMessage''] (stoppedEarly sampleBrokenNode) = None"
    by (simp add: stoppedEarly_def sampleBrokenNode_def fmlookup_of_list withMap_lookup
        onObj_def)
  have idx: "sampleMessages ! 0 = JStr ''noise''" "sampleMessages ! 1 = sampleOtherNode"
    "sampleMessages ! 2 = sampleBrokenNode" "length sampleMessages = 3"
    by (simp_all add: sampleMessages_def)
  from PruneAgentMessages_shape_tolerant [of sampleMessages] h0 h1 h2 e idx
  show ?thesis by simp
qed

section \<open>Properties of the worker pool\<close>

subsection \<open>The invariant\<close>

lemma sendingOf_update:
  "i < length ws \<Longrightarrow>
   mset (sendingOf (ws[i := w])) + mset (sendingOf [ws ! i]) =
   mset (sendingOf [w]) + mset (sendingOf ws)"
proof (induction ws arbitrary: i)
  case Nil
  then show ?case by simp
next
  case (Cons a ws)
  show ?case
  proof (cases i)
    case 0
    then show ?thesis by (cases a; cases w) simp_all
  next
    case (Suc j)
    with Cons.prems have "j < length ws" by simp
    from Cons.IH [OF this] Suc show ?thesis
      by (cases a) (simp_all add: ac_simps)
  qed
qed

lemma sendingOf_Exited: "list_all (\<lambda>w. w = Exited) ws \<Longrightarrow> sendingOf ws = []"
  by (induction ws) auto

lemma batchesOf_snoc:
  "batchesOf p (us @ [u]) = batchesOf p us @ contribution (snd (p u))"
  by (simp add: batchesOf_def)

lemma batchesOf_mset:
  "mset us = mset vs \<Longrightarrow> mset (batchesOf p us) = mset (batchesOf p vs)"
proof -
  assume h: "mset us = mset vs"
  have "mset (batchesOf p xs) = (\<Sum>u\<in>#mset xs. mset (contribution (snd (p u))))" for xs
    by (induction xs) (simp_all add: batchesOf_def)
  with h show ?thesis by simp
qed

lemma sendingOf_replicate: "sendingOf (replicate W Receiving) = []"
  by (induction W) simp_all

lemma poolInv_init: "poolInv p W users (initPool W users)"
  by (simp add: poolInv_def initPool_def batchesOf_def list_all_iff sendingOf_replicate)

lemma poolInv_Feed:
  assumes "poolInv p W users s" and "step p cap consumer Feed s = Some s'"
  shows "poolInv p W users s'"
  using assms
  by (auto simp: poolInv_def split: list.splits if_splits)

lemma poolInv_CloseUsers:
  assumes "poolInv p W users s" and "step p cap consumer CloseUsers s = Some s'"
  shows "poolInv p W users s'"
  using assms
  by (auto simp: poolInv_def split: list.splits if_splits)

lemma poolInv_CloseConv:
  assumes "poolInv p W users s" and "step p cap consumer CloseConv s = Some s'"
  shows "poolInv p W users s'"
  using assms
  by (auto simp: poolInv_def split: list.splits if_splits)

lemma poolInv_Drain:
  assumes "poolInv p W users s" and "step p cap consumer Drain s = Some s'"
  shows "poolInv p W users s'"
  using assms
  by (auto simp: poolInv_def split: list.splits if_splits)

lemma sendingOf_set_Receiving:
  assumes "i < length ws" and "ws ! i = Sending cs"
  shows "mset (sendingOf (ws[i := Receiving])) + {#cs#} = mset (sendingOf ws)"
  using sendingOf_update [OF assms(1), of Receiving] assms(2) by simp

lemma sendingOf_set_Sending:
  assumes "i < length ws" and "ws ! i = Receiving"
  shows "mset (sendingOf (ws[i := Sending cs])) = mset (sendingOf ws) + {#cs#}"
  using sendingOf_update [OF assms(1), of "Sending cs"] assms(2) by simp

lemma sendingOf_set_Exited:
  assumes "i < length ws" and "ws ! i = Receiving"
  shows "mset (sendingOf (ws[i := Exited])) = mset (sendingOf ws)"
  using sendingOf_update [OF assms(1), of Exited] assms(2) by simp

lemma Exited_in_update:
  assumes "i < length ws" and "ws ! i = Receiving" and "Exited \<in> set (ws[i := w])" and "w \<noteq> Exited"
  shows "Exited \<in> set ws"
  using assms by (metis in_set_conv_nth length_list_update nth_list_update)

lemma all_Exited_nth: "list_all (\<lambda>w. w = Exited) ws \<Longrightarrow> i < length ws \<Longrightarrow> ws ! i = Exited"
  by (simp add: list_all_length)

lemma poolInv_Send:
  assumes "poolInv p W users s" and "step p cap consumer (Send i) s = Some s'"
  shows "poolInv p W users s'"
proof -
  from assms(2) obtain cs where
    i: "i < length (workers s)" and w: "workers s ! i = Sending cs" and
    s': "s' = s\<lparr>convChan := convChan s @ [cs], workers := (workers s)[i := Receiving]\<rparr>"
    by (auto split: if_splits worker.splits)
  have e: "Exited \<in> set ((workers s)[i := Receiving]) \<Longrightarrow> Exited \<in> set (workers s)"
    by (metis i in_set_conv_nth length_list_update nth_list_update worker.distinct(3))
  have c: "\<not> convClosed s"
    using assms(1) i w by (auto simp: poolInv_def dest: all_Exited_nth)
  show ?thesis
    using assms(1) e c
    by (auto simp: poolInv_def s' sendingOf_set_Receiving [OF i w, symmetric])
qed

lemma poolInv_Exit:
  assumes "poolInv p W users s" and "step p cap consumer (Exit i) s = Some s'"
  shows "poolInv p W users s'"
proof -
  from assms(2) have
    i: "i < length (workers s)" and w: "workers s ! i = Receiving" and
    u: "userChan s = []" "userClosed s" and
    s': "s' = s\<lparr>workers := (workers s)[i := Exited]\<rparr>"
    by (auto split: if_splits)
  have c: "\<not> convClosed s"
    using assms(1) i w by (auto simp: poolInv_def dest: all_Exited_nth)
  show ?thesis
    using assms(1) sendingOf_set_Exited [OF i w] u c
    by (auto simp: poolInv_def s')
qed

lemma poolInv_Recv:
  assumes "poolInv p W users s" and "step p cap consumer (Recv i) s = Some s'"
  shows "poolInv p W users s'"
proof -
  from assms(2) obtain u q where
    i: "i < length (workers s)" and w: "workers s ! i = Receiving" and
    uc: "userChan s = u # q" and
    s': "s' = afterFetch i u (p u) (s\<lparr>userChan := q, fetched := fetched s @ [u]\<rparr>)"
    by (auto split: if_splits list.splits)
  have c: "\<not> convClosed s"
    using assms(1) i w by (auto simp: poolInv_def dest: all_Exited_nth)
  have x: "Exited \<notin> set (workers s)"
    using assms(1) uc by (auto simp: poolInv_def)
  obtain ev r where pu: "p u = (ev, r)" by (cases "p u")
  show ?thesis
  proof (cases r)
    case (Inl err)
    then show ?thesis
      using assms(1) uc c x
      by (auto simp: poolInv_def s' pu afterFetch_def batchesOf_snoc)
  next
    case (Inr cs)
    show ?thesis
    proof (cases "cs = []")
      case True
      then show ?thesis
        using assms(1) uc c x Inr
        by (auto simp: poolInv_def s' pu afterFetch_def batchesOf_snoc)
    next
      case False
      have e: "Exited \<notin> set ((workers s)[i := Sending cs])"
        using x by (metis i in_set_conv_nth length_list_update nth_list_update worker.distinct(5))
      show ?thesis
        using assms(1) uc c e Inr False sendingOf_set_Sending [OF i w, of cs]
        by (auto simp: poolInv_def s' pu afterFetch_def batchesOf_snoc)
    qed
  qed
qed

lemma poolInv_step:
  assumes "poolInv p W users s" and "step p cap consumer a s = Some s'"
  shows "poolInv p W users s'"
  using assms
  by (cases a)
     (blast intro: poolInv_Feed poolInv_CloseUsers poolInv_Recv poolInv_Send poolInv_Exit
        poolInv_CloseConv poolInv_Drain)+

lemma poolInv_exec:
  assumes "poolInv p W users s" and "exec p cap consumer sched s = Some s'"
  shows "poolInv p W users s'"
  using assms
proof (induction sched arbitrary: s)
  case Nil
  then show ?case by simp
next
  case (Cons a sched)
  then show ?case
    by (auto split: option.splits dest: poolInv_step)
qed

lemma poolInv_isRun: "isRun p W consumer users sched s \<Longrightarrow> poolInv p W users s"
  unfolding isRun_def by (rule poolInv_exec [OF poolInv_init])

subsection \<open>Every action lowers the work left\<close>

lemma count_update:
  "i < length ws \<Longrightarrow>
   length (filter P (ws[i := w])) + (if P (ws ! i) then 1 else 0) =
   length (filter P ws) + (if P w then 1 else 0)"
proof (induction ws arbitrary: i)
  case Nil
  then show ?case by simp
next
  case (Cons a ws)
  show ?case
  proof (cases i)
    case 0
    then show ?thesis by simp
  next
    case (Suc j)
    with Cons.prems have "j < length ws" by simp
    from Cons.IH [OF this] Suc show ?thesis by simp
  qed
qed

lemma work_step:
  assumes "step p cap consumer a s = Some s'"
  shows "work s' < work s"
proof (cases a)
  case Feed
  with assms show ?thesis by (auto simp: work_def split: list.splits if_splits)
next
  case CloseUsers
  with assms show ?thesis by (auto simp: work_def split: if_splits)
next
  case (Recv i)
  with assms obtain u q where
    i: "i < length (workers s)" and w: "workers s ! i = Receiving" and
    uc: "userChan s = u # q" and
    s': "s' = afterFetch i u (p u) (s\<lparr>userChan := q, fetched := fetched s @ [u]\<rparr>)"
    by (auto split: if_splits list.splits)
  obtain ev r where pu: "p u = (ev, r)" by (cases "p u")
  have 1: "sendingCount ((workers s)[i := Sending cs]) = sendingCount (workers s) + 1" for cs
    using count_update [OF i, of "\<lambda>w. w \<noteq> Receiving \<and> w \<noteq> Exited" "Sending cs"] w
    by (simp add: sendingCount_def)
  have 2: "length (filter (\<lambda>w. w \<noteq> Exited) ((workers s)[i := Sending cs])) =
           length (filter (\<lambda>w. w \<noteq> Exited) (workers s))" for cs
    using count_update [OF i, of "\<lambda>w. w \<noteq> Exited" "Sending cs"] w by simp
  show ?thesis
    by (cases r) (simp_all add: s' pu afterFetch_def work_def uc 1 2)
next
  case (Send i)
  with assms obtain cs where
    i: "i < length (workers s)" and w: "workers s ! i = Sending cs" and
    s': "s' = s\<lparr>convChan := convChan s @ [cs], workers := (workers s)[i := Receiving]\<rparr>"
    by (auto split: if_splits worker.splits)
  have 1: "sendingCount ((workers s)[i := Receiving]) + 1 = sendingCount (workers s)"
    using count_update [OF i, of "\<lambda>w. w \<noteq> Receiving \<and> w \<noteq> Exited" Receiving] w
    by (simp add: sendingCount_def)
  have 2: "length (filter (\<lambda>w. w \<noteq> Exited) ((workers s)[i := Receiving])) =
           length (filter (\<lambda>w. w \<noteq> Exited) (workers s))"
    using count_update [OF i, of "\<lambda>w. w \<noteq> Exited" Receiving] w by simp
  show ?thesis
    using 1 by (simp add: s' work_def 2)
next
  case (Exit i)
  with assms have
    i: "i < length (workers s)" and w: "workers s ! i = Receiving" and
    s': "s' = s\<lparr>workers := (workers s)[i := Exited]\<rparr>"
    by (auto split: if_splits)
  have 1: "sendingCount ((workers s)[i := Exited]) = sendingCount (workers s)"
    using count_update [OF i, of "\<lambda>w. w \<noteq> Receiving \<and> w \<noteq> Exited" Exited] w
    by (simp add: sendingCount_def)
  have 2: "length (filter (\<lambda>w. w \<noteq> Exited) ((workers s)[i := Exited])) + 1 =
           length (filter (\<lambda>w. w \<noteq> Exited) (workers s))"
    using count_update [OF i, of "\<lambda>w. w \<noteq> Exited" Exited] w by simp
  show ?thesis
    using 2 by (simp add: s' work_def 1)
next
  case CloseConv
  with assms show ?thesis by (auto simp: work_def split: if_splits)
next
  case Drain
  with assms show ?thesis by (auto simp: work_def split: list.splits if_splits)
qed

lemma work_exec:
  assumes "exec p cap consumer sched s = Some s'"
  shows "length sched + work s' \<le> work s"
  using assms
proof (induction sched arbitrary: s)
  case Nil
  then show ?case by simp
next
  case (Cons a sched)
  then obtain s1 where
    1: "step p cap consumer a s = Some s1" and 2: "exec p cap consumer sched s1 = Some s'"
    by (auto split: option.splits)
  from work_step [OF 1] Cons.IH [OF 2] show ?case by simp
qed

lemma work_init: "work (initPool W users) = 4 * length users + W + 2"
  by (simp add: work_def initPool_def sendingCount_def)

subsection \<open>Some action is enabled until the pool is done\<close>

lemma step_in_actionsOf:
  "step p cap consumer a s \<noteq> None \<Longrightarrow> a \<in> set (actionsOf (length (workers s)))"
  by (cases a) (auto simp: actionsOf_def split: if_splits)

lemma enabled_iff: "a \<in> set (enabled p cap consumer s) \<longleftrightarrow> step p cap consumer a s \<noteq> None"
  using step_in_actionsOf [of p cap consumer a s] by (auto simp: enabled_def)

lemma length_batchesOf: "length (batchesOf p us) \<le> length us"
proof (induction us)
  case Nil
  then show ?case by (simp add: batchesOf_def)
next
  case (Cons u us)
  have "length (contribution r) \<le> 1" for r :: "error + Conversation list"
    by (cases r) simp_all
  from this [of "snd (p u)"] Cons show ?case by (simp add: batchesOf_def)
qed

lemma sendingOf_nonempty:
  "i < length ws \<Longrightarrow> ws ! i = Sending cs \<Longrightarrow> 0 < length (sendingOf ws)"
proof (induction ws arbitrary: i)
  case Nil
  then show ?case by simp
next
  case (Cons a ws)
  then show ?case by (cases i; cases a) auto
qed

lemma poolInv_sizes:
  assumes "poolInv p W users s"
  shows "length (feed s) + length (userChan s) + length (fetched s) = length users"
    and "length (drained s) + length (convChan s) + length (sendingOf (workers s)) \<le> length users"
proof -
  from assms have "mset (feed s) + mset (userChan s) + mset (fetched s) = mset users"
    by (simp add: poolInv_def)
  then have "size (mset (feed s) + mset (userChan s) + mset (fetched s)) = size (mset users)"
    by simp
  then show 1: "length (feed s) + length (userChan s) + length (fetched s) = length users"
    by simp
  from assms have "mset (drained s) + mset (convChan s) + mset (sendingOf (workers s)) =
        mset (batchesOf p (fetched s))"
    by (simp add: poolInv_def)
  then have "size (mset (drained s) + mset (convChan s) + mset (sendingOf (workers s))) =
        size (mset (batchesOf p (fetched s)))"
    by simp
  then have "length (drained s) + length (convChan s) + length (sendingOf (workers s)) =
        length (batchesOf p (fetched s))"
    by simp
  with length_batchesOf [of p "fetched s"] 1
  show "length (drained s) + length (convChan s) + length (sendingOf (workers s)) \<le> length users"
    by simp
qed

lemma worker_cases:
  obtains (sending) i cs where "i < length ws" "ws ! i = Sending cs"
  | (receiving) i where "i < length ws" "ws ! i = Receiving"
  | (exited) "list_all (\<lambda>w. w = Exited) ws"
proof (cases "list_all (\<lambda>w. w = Exited) ws")
  case True
  then show ?thesis by (rule exited)
next
  case False
  then obtain i where i: "i < length ws" "ws ! i \<noteq> Exited"
    by (auto simp: list_all_length)
  then show ?thesis
    by (cases "ws ! i") (auto intro: sending receiving)
qed

lemma pool_progress:
  assumes inv: "poolInv p W users s" and nf: "\<not> finished consumer s"
  shows "\<exists>a. step p (length users) consumer a s \<noteq> None"
proof (cases "feed s")
  case (Cons u us)
  with poolInv_sizes(1) [OF inv] have "step p (length users) consumer Feed s \<noteq> None"
    by simp
  then show ?thesis ..
next
  case Nil
  show ?thesis
  proof (cases "userClosed s")
    case False
    with Nil have "step p (length users) consumer CloseUsers s \<noteq> None" by simp
    then show ?thesis ..
  next
    case True
    show ?thesis
    proof (cases "workers s" rule: worker_cases)
      case (sending i cs)
      from sendingOf_nonempty [OF sending] poolInv_sizes(2) [OF inv]
      have "length (convChan s) < length users" by linarith
      with sending have "step p (length users) consumer (Send i) s \<noteq> None" by simp
      then show ?thesis ..
    next
      case (receiving i)
      show ?thesis
      proof (cases "userChan s")
        case Nil
        with receiving True have "step p (length users) consumer (Exit i) s \<noteq> None" by simp
        then show ?thesis ..
      next
        case (Cons u q)
        with receiving have "step p (length users) consumer (Recv i) s \<noteq> None" by simp
        then show ?thesis ..
      qed
    next
      case exited
      show ?thesis
      proof (cases "convClosed s")
        case False
        with exited True have "step p (length users) consumer CloseConv s \<noteq> None" by simp
        then show ?thesis ..
      next
        case c: True
        with nf have "consumer" "convChan s \<noteq> []" by (auto simp: finished_def)
        with True have "step p (length users) consumer Drain s \<noteq> None"
          by (cases "convChan s") simp_all
        then show ?thesis ..
      qed
    qed
  qed
qed

subsection \<open>What a finished pool has done\<close>

lemma not_consumer_step:
  "step p cap False a s = Some s' \<Longrightarrow> drained s' = drained s"
  by (cases a) (auto simp: afterFetch_def split: if_splits list.splits worker.splits sum.splits prod.splits)

lemma not_consumer_exec:
  "exec p cap False sched s = Some s' \<Longrightarrow> drained s' = drained s"
proof (induction sched arbitrary: s)
  case Nil
  then show ?case by simp
next
  case (Cons a sched)
  then show ?case by (auto split: option.splits dest: not_consumer_step)
qed

lemma pool_finished:
  assumes inv: "poolInv p W users s" and W: "0 < W" and fin: "finished consumer s"
  shows "mset (fetched s) = mset users"
    and "mset (drained s) + mset (convChan s) = mset (batchesOf p users)"
    and "consumer \<Longrightarrow> mset (drained s) = mset (batchesOf p users)"
proof -
  from fin have c: "convClosed s" by (simp add: finished_def)
  with inv have ex: "list_all (\<lambda>w. w = Exited) (workers s)" and uc: "userClosed s"
    by (simp_all add: poolInv_def)
  from inv W have "workers s \<noteq> []" by (auto simp: poolInv_def)
  with ex have "Exited \<in> set (workers s)"
    by (cases "workers s") simp_all
  with inv uc have e: "feed s = []" "userChan s = []" by (simp_all add: poolInv_def)
  with inv show f: "mset (fetched s) = mset users" by (simp add: poolInv_def)
  from inv sendingOf_Exited [OF ex] batchesOf_mset [OF f, of p]
  show d: "mset (drained s) + mset (convChan s) = mset (batchesOf p users)"
    by (simp add: poolInv_def)
  assume consumer
  with fin have "convChan s = []" by (simp add: finished_def)
  with d show "mset (drained s) = mset (batchesOf p users)" by simp
qed

lemma fetched_submultiset:
  assumes "poolInv p W users s"
  shows "mset (fetched s) \<subseteq># mset users"
proof -
  from assms have "mset (feed s) + mset (userChan s) + mset (fetched s) = mset users"
    by (simp add: poolInv_def)
  then show ?thesis by (metis mset_subset_eq_add_right)
qed


subsection \<open>Every pool can run to its end\<close>

lemma pool_completes:
  assumes "poolInv p W users s"
  shows "\<exists>sched s'. exec p (length users) consumer sched s = Some s' \<and> finished consumer s'"
  using assms
proof (induction "work s" arbitrary: s rule: less_induct)
  case less
  show ?case
  proof (cases "finished consumer s")
    case True
    then have "exec p (length users) consumer [] s = Some s \<and> finished consumer s" by simp
    then show ?thesis by blast
  next
    case False
    from pool_progress [OF less.prems False]
    obtain a s1 where a: "step p (length users) consumer a s = Some s1" by auto
    from less.hyps [OF work_step [OF a] poolInv_step [OF less.prems a]]
    obtain sched s' where
      "exec p (length users) consumer sched s1 = Some s'" "finished consumer s'"
      by blast
    with a have "exec p (length users) consumer (a # sched) s = Some s' \<and> finished consumer s'"
      by simp
    then show ?thesis by blast
  qed
qed

subsection \<open>Load jobs among events\<close>

lemma loadJobs_append: "loadJobs (xs @ ys) = loadJobs xs @ loadJobs ys"
  by (induction xs rule: loadJobs.induct) (simp_all split: body.splits)

lemma loadJobs_sudoLogin: "loadJobs (fst (sudoLogin e cfg adminToken userID)) = []"
  by (simp add: sudoLogin_def Let_def split: sum.splits)

lemma loadJobs_logout: "loadJobs (logout e cfg token) = []"
  by (simp add: logout_def)

lemma loadJobs_searchConversations:
  "loadJobs (fst (searchConversations e cfg token mode)) = []"
  by (simp add: searchConversations_def Let_def loadJobs_append split: sum.splits option.splits)

lemma loadJobs_getConversationDetail:
  "loadJobs (fst (getConversationDetail e cfg token convID)) = []"
  by (simp add: getConversationDetail_def Let_def split: sum.splits)

lemma loadJobs_fetchDetails:
  "loadJobs (fst (fetchDetails e cfg token cs evs detailed)) = loadJobs evs"
proof (induction cs arbitrary: evs detailed)
  case Nil
  then show ?case by simp
next
  case (Cons c cs)
  obtain ev r where g: "getConversationDetail e cfg token (ID c) = (ev, r)"
    by (cases "getConversationDetail e cfg token (ID c)")
  with loadJobs_getConversationDetail [of e cfg token "ID c"] have "loadJobs ev = []" by simp
  then show ?case
    by (cases r) (simp_all add: g Cons.IH loadJobs_append)
qed

lemma loadJobs_processUser:
  "loadJobs (fst (processUser e cfg adminToken user mode userID)) = []"
proof -
  obtain ev1 r1 where 1: "sudoLogin e cfg adminToken userID = (ev1, r1)"
    by (cases "sudoLogin e cfg adminToken userID")
  with loadJobs_sudoLogin [of e cfg adminToken userID] have l1: "loadJobs ev1 = []" by simp
  show ?thesis
  proof (cases r1)
    case (Inl err)
    then show ?thesis by (simp add: processUser_def 1 l1)
  next
    case (Inr userToken)
    obtain ev2 r2 where 2: "searchConversations e cfg userToken mode = (ev2, r2)"
      by (cases "searchConversations e cfg userToken mode")
    with loadJobs_searchConversations [of e cfg userToken mode] have l2: "loadJobs ev2 = []"
      by simp
    show ?thesis
    proof (cases r2)
      case (Inl err)
      then show ?thesis
        by (simp add: processUser_def 1 Inr 2 l1 l2 loadJobs_append loadJobs_logout)
    next
      case r: (Inr conversations)
      obtain ev3 detailed where
        3: "fetchDetails e cfg userToken conversations [] [] = (ev3, detailed)"
        by (cases "fetchDetails e cfg userToken conversations [] []")
      with loadJobs_fetchDetails [of e cfg userToken conversations "[]" "[]"]
      have l3: "loadJobs ev3 = []" by simp
      show ?thesis
        by (simp add: processUser_def 1 Inr 2 r 3 l1 l2 l3 loadJobs_append loadJobs_logout)
    qed
  qed
qed

lemma loadJobs_lookerLogin: "loadJobs (fst (lookerLogin e cfg a b)) = []"
  by (simp add: lookerLogin_def Let_def split: sum.splits)

lemma loadJobs_searchUsers: "loadJobs (fst (searchUsers e cfg token)) = []"
  by (simp add: searchUsers_def Let_def loadJobs_append split: sum.splits)

lemma loadJobs_getGCPToken: "loadJobs (fst (getGCPToken e)) = []"
  by (simp add: getGCPToken_def Let_def split: sum.splits)

lemma loadJobs_step:
  assumes "\<And>u. loadJobs (fst (p u)) = []" and "step p cap consumer a s = Some s'"
  shows "loadJobs (wtrace s') = loadJobs (wtrace s)"
proof (cases a)
  case (Recv i)
  with assms(2) obtain u q where
    s': "s' = afterFetch i u (p u) (s\<lparr>userChan := q, fetched := fetched s @ [u]\<rparr>)"
    by (auto split: if_splits list.splits)
  obtain ev r where pu: "p u = (ev, r)" by (cases "p u")
  with assms(1) [of u] have "loadJobs ev = []" by simp
  then show ?thesis
    by (cases r) (simp_all add: s' pu afterFetch_def loadJobs_append)
qed (use assms(2) in \<open>auto split: if_splits list.splits worker.splits\<close>)

lemma loadJobs_exec:
  assumes "\<And>u. loadJobs (fst (p u)) = []" and "exec p cap consumer sched s = Some s'"
  shows "loadJobs (wtrace s') = loadJobs (wtrace s)"
  using assms(2)
proof (induction sched arbitrary: s)
  case Nil
  then show ?case by simp
next
  case (Cons a sched)
  then obtain s1 where
    1: "step p cap consumer a s = Some s1" and 2: "exec p cap consumer sched s1 = Some s'"
    by (auto split: option.splits)
  from loadJobs_step [OF assms(1) 1] Cons.IH [OF 2] show ?case by simp
qed

subsection \<open>Serialising the batches\<close>

lemma marshalBatch_eq:
  "\<exists>warnings. marshalBatch e cs (evs, ndjson, n) =
     (evs @ warnings, ndjson @ ndjsonOf e cs, n + length (filter (marshals e) cs)) \<and>
     loadJobs warnings = []"
proof (induction cs arbitrary: evs ndjson n)
  case Nil
  then show ?case by (simp add: ndjsonOf_def)
next
  case (Cons c cs)
  show ?case
  proof (cases "marshal e c")
    case (Inl err)
    from Cons.IH [of "evs @ [Log (LogMarshalWarning (ID c) err)]" ndjson n]
    obtain w where
      "marshalBatch e cs (evs @ [Log (LogMarshalWarning (ID c) err)], ndjson, n) =
         ((evs @ [Log (LogMarshalWarning (ID c) err)]) @ w, ndjson @ ndjsonOf e cs,
          n + length (filter (marshals e) cs))" "loadJobs w = []"
      by blast
    then have "marshalBatch e (c # cs) (evs, ndjson, n) =
         (evs @ (Log (LogMarshalWarning (ID c) err) # w), ndjson @ ndjsonOf e (c # cs),
          n + length (filter (marshals e) (c # cs))) \<and>
         loadJobs (Log (LogMarshalWarning (ID c) err) # w) = []"
      using Inl by (simp add: ndjsonOf_def marshals_def)
    then show ?thesis by blast
  next
    case (Inr b)
    from Cons.IH [of evs "ndjson @ b @ [CHR 0x0A]" "n + 1"]
    obtain w where
      "marshalBatch e cs (evs, ndjson @ b @ [CHR 0x0A], n + 1) =
         (evs @ w, (ndjson @ b @ [CHR 0x0A]) @ ndjsonOf e cs,
          n + 1 + length (filter (marshals e) cs))" "loadJobs w = []"
      by blast
    then have "marshalBatch e (c # cs) (evs, ndjson, n) =
         (evs @ w, ndjson @ ndjsonOf e (c # cs),
          n + length (filter (marshals e) (c # cs))) \<and> loadJobs w = []"
      using Inr by (simp add: ndjsonOf_def marshals_def)
    then show ?thesis by blast
  qed
qed

lemma marshalAll_eq:
  "\<exists>warnings. marshalAll e batches (evs, ndjson, n) =
     (evs @ warnings, ndjson @ ndjsonOf e (concat batches), n + rowsOf e batches) \<and>
     loadJobs warnings = []"
proof (induction batches arbitrary: evs ndjson n)
  case Nil
  then show ?case by (simp add: ndjsonOf_def rowsOf_def)
next
  case (Cons data rest)
  from marshalBatch_eq [of e data evs ndjson n] obtain w1 where
    1: "marshalBatch e data (evs, ndjson, n) =
         (evs @ w1, ndjson @ ndjsonOf e data, n + length (filter (marshals e) data))"
       "loadJobs w1 = []"
    by blast
  from Cons.IH [of "evs @ w1" "ndjson @ ndjsonOf e data" "n + length (filter (marshals e) data)"]
  obtain w2 where
    2: "marshalAll e rest (evs @ w1, ndjson @ ndjsonOf e data,
          n + length (filter (marshals e) data)) =
        ((evs @ w1) @ w2, (ndjson @ ndjsonOf e data) @ ndjsonOf e (concat rest),
          n + length (filter (marshals e) data) + rowsOf e rest)"
       "loadJobs w2 = []"
    by blast
  have "marshalAll e (data # rest) (evs, ndjson, n) =
     (evs @ (w1 @ w2), ndjson @ ndjsonOf e (concat (data # rest)), n + rowsOf e (data # rest)) \<and>
     loadJobs (w1 @ w2) = []"
    using 1 2 by (simp add: ndjsonOf_def rowsOf_def loadJobs_append)
  then show ?case by blast
qed

lemma mset_concat_cong:
  assumes "mset xss = mset yss"
  shows "mset (concat xss) = mset (concat yss)"
proof -
  have "mset (concat zss) = \<Sum>\<^sub># (image_mset mset (mset zss))" for zss :: "'a list list"
    by (induction zss) simp_all
  with assms show ?thesis by simp
qed

lemma rowsOf_cong:
  assumes "mset xss = mset yss"
  shows "rowsOf e xss = rowsOf e yss"
proof -
  have "rowsOf e zss = size (filter_mset (marshals e) (mset (concat zss)))" for zss
    by (simp add: rowsOf_def flip: mset_filter)
  with mset_concat_cong [OF assms] show ?thesis by simp
qed


subsection \<open>insertToBigQuery\<close>

lemma loadJobs_member:
  "Http req \<in> set evs \<Longrightarrow> reqBody req = Multipart jc ndjson \<Longrightarrow> ndjson \<in> set (loadJobs evs)"
  by (induction evs rule: loadJobs.induct) (auto split: body.splits)

lemma gotToken_iff: "gotToken e \<longleftrightarrow> (\<exists>ev0 gcpToken. getGCPToken e = (ev0, Inr gcpToken))"
  by (cases "getGCPToken e") (auto simp: gotToken_def split: sum.splits)

lemma insertToBigQuery_noToken:
  assumes "\<not> gotToken e"
  shows "\<exists>ev0 err. insertToBigQuery e cfg batches =
           (ev0, 0, Some (Wrap ''failed to get GCP token'' err)) \<and> loadJobs ev0 = []"
proof -
  obtain ev0 r where g: "getGCPToken e = (ev0, r)" by (cases "getGCPToken e")
  with assms obtain err where "r = Inl err" by (cases r) (auto simp: gotToken_def)
  with g loadJobs_getGCPToken [of e] show ?thesis
    by (simp add: insertToBigQuery_def)
qed

text \<open>The events and the result of \<open>insertToBigQuery\<close> once it has its token, by what
  happens after the loop.\<close>

lemma insertToBigQuery_token:
  assumes g: "getGCPToken e = (ev0, Inr gcpToken)"
    and n_def: "n = rowsOf e batches"
    and req_def: "req = loadRequest cfg gcpToken (ndjsonOf e (concat batches))"
  shows "\<exists>pre. loadJobs pre = [] \<and>
     insertToBigQuery e cfg batches =
       (if n = 0 then (pre @ [Log LogNoRows], 0, None)
        else case createMetadataPart e of
               Some err \<Rightarrow> (pre @ [Log (LogAttempting n)], n, Some err)
             | None \<Rightarrow>
                 (case createDataPart e of
                    Some err \<Rightarrow> (pre @ [Log (LogAttempting n)], n, Some err)
                  | None \<Rightarrow>
                      (case client_Do e req of
                         Inl err \<Rightarrow>
                           (pre @ [Log (LogAttempting n), Log (LogCreatingJob (reqURL req)),
                                   Http req], n, Some err)
                       | Inr resp \<Rightarrow>
                           if status resp \<noteq> 200
                           then (pre @ [Log (LogAttempting n), Log (LogCreatingJob (reqURL req)),
                                        Http req],
                                 n, Some (Status ''BQ job creation failed'' (status resp)
                                            (respBody resp)))
                           else (pre @ [Log (LogAttempting n), Log (LogCreatingJob (reqURL req)),
                                        Http req, Log (LogJobCreated (respBody resp))],
                                 n, None))))"
proof -
  from marshalAll_eq [of e batches ev0 "[]" 0] obtain w where
    w: "marshalAll e batches (ev0, [], 0) = (ev0 @ w, ndjsonOf e (concat batches), n)"
       "loadJobs w = []"
    by (auto simp: n_def)
  from g loadJobs_getGCPToken [of e] have "loadJobs ev0 = []" by simp
  with w(2) have "loadJobs (ev0 @ w) = []" by (simp add: loadJobs_append)
  moreover have "insertToBigQuery e cfg batches =
       (if n = 0 then ((ev0 @ w) @ [Log LogNoRows], 0, None)
        else case createMetadataPart e of
               Some err \<Rightarrow> ((ev0 @ w) @ [Log (LogAttempting n)], n, Some err)
             | None \<Rightarrow>
                 (case createDataPart e of
                    Some err \<Rightarrow> ((ev0 @ w) @ [Log (LogAttempting n)], n, Some err)
                  | None \<Rightarrow>
                      (case client_Do e req of
                         Inl err \<Rightarrow>
                           ((ev0 @ w) @ [Log (LogAttempting n), Log (LogCreatingJob (reqURL req)),
                                   Http req], n, Some err)
                       | Inr resp \<Rightarrow>
                           if status resp \<noteq> 200
                           then ((ev0 @ w) @ [Log (LogAttempting n), Log (LogCreatingJob (reqURL req)),
                                        Http req],
                                 n, Some (Status ''BQ job creation failed'' (status resp)
                                            (respBody resp)))
                           else ((ev0 @ w) @ [Log (LogAttempting n), Log (LogCreatingJob (reqURL req)),
                                        Http req, Log (LogJobCreated (respBody resp))],
                                 n, None))))"
    by (simp add: insertToBigQuery_def g w(1) Let_def req_def split: option.splits sum.splits)
  ultimately show ?thesis by blast
qed

lemma loadJobs_loadRequest: "loadJobs [Http (loadRequest cfg gcpToken ndjson)] = [ndjson]"
  by (simp add: loadRequest_def)

lemma loadJobs_insertToBigQuery:
  "loadJobs (fst (insertToBigQuery e cfg batches)) =
     (if gotToken e \<and> rowsOf e batches \<noteq> 0 \<and> createMetadataPart e = None \<and>
         createDataPart e = None
      then [ndjsonOf e (concat batches)] else [])"
proof (cases "gotToken e")
  case False
  with insertToBigQuery_noToken [OF False, of cfg batches] show ?thesis by auto
next
  case True
  then obtain ev0 gcpToken where g: "getGCPToken e = (ev0, Inr gcpToken)"
    by (auto simp: gotToken_iff)
  from insertToBigQuery_token [OF g refl refl, where batches = batches and cfg = cfg]
  obtain pre where
    p: "loadJobs pre = []" and
    i: "insertToBigQuery e cfg batches =
       (if rowsOf e batches = 0 then (pre @ [Log LogNoRows], 0, None)
        else case createMetadataPart e of
               Some err \<Rightarrow> (pre @ [Log (LogAttempting (rowsOf e batches))], rowsOf e batches, Some err)
             | None \<Rightarrow>
                 (case createDataPart e of
                    Some err \<Rightarrow> (pre @ [Log (LogAttempting (rowsOf e batches))], rowsOf e batches, Some err)
                  | None \<Rightarrow>
                      (case client_Do e (loadRequest cfg gcpToken (ndjsonOf e (concat batches))) of
                         Inl err \<Rightarrow>
                           (pre @ [Log (LogAttempting (rowsOf e batches)), Log (LogCreatingJob (reqURL (loadRequest cfg gcpToken (ndjsonOf e (concat batches))))),
                                   Http (loadRequest cfg gcpToken (ndjsonOf e (concat batches)))], rowsOf e batches, Some err)
                       | Inr resp \<Rightarrow>
                           if status resp \<noteq> 200
                           then (pre @ [Log (LogAttempting (rowsOf e batches)), Log (LogCreatingJob (reqURL (loadRequest cfg gcpToken (ndjsonOf e (concat batches))))),
                                        Http (loadRequest cfg gcpToken (ndjsonOf e (concat batches)))],
                                 rowsOf e batches, Some (Status ''BQ job creation failed'' (status resp)
                                            (respBody resp)))
                           else (pre @ [Log (LogAttempting (rowsOf e batches)), Log (LogCreatingJob (reqURL (loadRequest cfg gcpToken (ndjsonOf e (concat batches))))),
                                        Http (loadRequest cfg gcpToken (ndjsonOf e (concat batches))), Log (LogJobCreated (respBody resp))],
                                 rowsOf e batches, None))))"
    by blast
  show ?thesis
    using True p
    by (simp add: i loadJobs_append loadRequest_def split: option.splits sum.splits)
qed


subsection \<open>The shape of a run\<close>

lemma runSync_not_discovered:
  assumes "discovered e cfg = None"
  shows "\<exists>r. runSync e cfg mode dryRun sched = Some r \<and> submissions r = [] \<and>
              received r = [] \<and> processed r = []"
proof -
  obtain ev1 o1 where l: "lookerLogin e cfg (LookerClientID cfg) (LookerClientSecret cfg) = (ev1, o1)"
    by (cases "lookerLogin e cfg (LookerClientID cfg) (LookerClientSecret cfg)")
  with loadJobs_lookerLogin [of e cfg "LookerClientID cfg" "LookerClientSecret cfg"]
  have l1: "loadJobs ev1 = []" by simp
  show ?thesis
  proof (cases o1)
    case Panicked
    then show ?thesis by (simp add: runSync_def l l1 noPool_def submissions_def)
  next
    case (Returned x)
    show ?thesis
    proof (cases x)
      case (Inl err)
      then show ?thesis by (simp add: runSync_def l l1 Returned noPool_def submissions_def)
    next
      case (Inr adminToken)
      obtain ev2 r2 where su: "searchUsers e cfg adminToken = (ev2, r2)"
        by (cases "searchUsers e cfg adminToken")
      with loadJobs_searchUsers [of e cfg adminToken] have l2: "loadJobs ev2 = []" by simp
      from assms l Returned Inr su obtain err where "r2 = Inl err"
        by (cases r2) (simp_all add: discovered_def)
      then show ?thesis
        by (simp add: runSync_def l l1 Returned Inr su l2 loadJobs_append noPool_def
            submissions_def)
    qed
  qed
qed

lemma runSync_discovered:
  assumes d: "discovered e cfg = Some (adminToken, users)"
    and r: "runSync e cfg mode dryRun sched = Some r"
  shows "\<exists>s ev.
     runPool (procOf e cfg adminToken mode) WorkerPoolSize (dryRun \<or> gotToken e) users sched
       = Some s \<and>
     loadJobs ev = [] \<and>
     result r = Returned None \<and> workerEvents r = wtrace s \<and>
     received r = drained s \<and> processed r = fetched s \<and>
     mainEvents r = ev @
       (if dryRun
        then [Log (LogDryRun (sum_list (map length (drained s))) (length (drained s))),
              Log (LogFinished mode (sum_list (map length (drained s))))]
        else fst (insertToBigQuery e cfg (drained s)) @
             (case snd (snd (insertToBigQuery e cfg (drained s))) of
                None \<Rightarrow> []
              | Some x \<Rightarrow> [Log (LogUploadError x)]) @
             [Log (LogFinished mode (fst (snd (insertToBigQuery e cfg (drained s)))))])"
proof -
  obtain ev1 o1 where l: "lookerLogin e cfg (LookerClientID cfg) (LookerClientSecret cfg) = (ev1, o1)"
    by (cases "lookerLogin e cfg (LookerClientID cfg) (LookerClientSecret cfg)")
  with loadJobs_lookerLogin [of e cfg "LookerClientID cfg" "LookerClientSecret cfg"]
  have l1: "loadJobs ev1 = []" by simp
  from d l have o1: "o1 = Returned (Inr adminToken)"
    by (auto simp: discovered_def split: outcome.splits sum.splits)
  obtain ev2 r2 where su: "searchUsers e cfg adminToken = (ev2, r2)"
    by (cases "searchUsers e cfg adminToken")
  with loadJobs_searchUsers [of e cfg adminToken] have l2: "loadJobs ev2 = []" by simp
  from d l o1 su have r2: "r2 = Inr users"
    by (auto simp: discovered_def split: sum.splits)
  let ?ev = "[Log (LogStarting mode dryRun)] @ ev1 @ ev2 @ [Log (LogFoundUsers (length users))]"
  have lev: "loadJobs ?ev = []" by (simp add: loadJobs_append l1 l2)
  from r obtain s where
    p: "runPool (procOf e cfg adminToken mode) WorkerPoolSize (dryRun \<or> gotToken e) users sched
          = Some s"
    by (auto simp: runSync_def Let_def l o1 su r2 split: option.splits)
  obtain ev3 n err where i: "insertToBigQuery e cfg (drained s) = (ev3, n, err)"
    by (cases "insertToBigQuery e cfg (drained s)")
  have "result r = Returned None \<and> workerEvents r = wtrace s \<and>
     received r = drained s \<and> processed r = fetched s \<and>
     mainEvents r = ?ev @
       (if dryRun
        then [Log (LogDryRun (sum_list (map length (drained s))) (length (drained s))),
              Log (LogFinished mode (sum_list (map length (drained s))))]
        else fst (insertToBigQuery e cfg (drained s)) @
             (case snd (snd (insertToBigQuery e cfg (drained s))) of
                None \<Rightarrow> []
              | Some x \<Rightarrow> [Log (LogUploadError x)]) @
             [Log (LogFinished mode (fst (snd (insertToBigQuery e cfg (drained s)))))])"
    using r by (auto simp: runSync_def Let_def l o1 su r2 p i)
  with p lev show ?thesis by blast
qed

lemma runPool_facts:
  assumes "runPool p W consumer users sched = Some s"
  shows "isRun p W consumer users sched s" and "finished consumer s"
  using assms by (auto simp: runPool_def isRun_def split: option.splits if_splits)

lemma loadJobs_procOf: "loadJobs (fst (procOf e cfg adminToken mode u)) = []"
  by (simp add: procOf_def loadJobs_processUser)

lemma loadJobs_pool:
  assumes "isRun (procOf e cfg adminToken mode) W consumer users sched s"
  shows "loadJobs (wtrace s) = []"
  using loadJobs_exec [where p = "procOf e cfg adminToken mode" and s = "initPool W users",
      OF loadJobs_procOf] assms
  by (simp add: isRun_def initPool_def)

lemma drained_no_consumer:
  assumes "isRun p W False users sched s"
  shows "drained s = []"
  using not_consumer_exec [of p "length users" sched "initPool W users" s] assms
  by (simp add: isRun_def initPool_def)

lemma WorkerPoolSize_pos: "0 < WorkerPoolSize"
  by (simp add: WorkerPoolSize_def)

text \<open>What the calling goroutine has received when a run with discovered users ends.\<close>

lemma received_discovered:
  assumes d: "discovered e cfg = Some (adminToken, users)"
    and r: "runSync e cfg mode dryRun sched = Some r"
  shows "mset (processed r) = mset users"
    and "dryRun \<or> gotToken e \<Longrightarrow>
         mset (received r) = mset (batchesOf (procOf e cfg adminToken mode) users)"
    and "\<not> (dryRun \<or> gotToken e) \<Longrightarrow> received r = []"
proof -
  from runSync_discovered [OF d r] obtain s where
    p: "runPool (procOf e cfg adminToken mode) WorkerPoolSize (dryRun \<or> gotToken e) users sched
          = Some s" and
    f: "received r = drained s" "processed r = fetched s"
    by blast
  note run = runPool_facts [OF p]
  note inv = poolInv_isRun [OF run(1)]
  from pool_finished(1) [OF inv WorkerPoolSize_pos run(2)] f
  show "mset (processed r) = mset users" by simp
  show "mset (received r) = mset (batchesOf (procOf e cfg adminToken mode) users)"
    if "dryRun \<or> gotToken e"
    using pool_finished(3) [OF inv WorkerPoolSize_pos run(2) that] f by simp
  show "received r = []" if "\<not> (dryRun \<or> gotToken e)"
    using drained_no_consumer [of "procOf e cfg adminToken mode" WorkerPoolSize users sched s]
      run(1) that f
    by simp
qed

lemma submissions_discovered:
  assumes d: "discovered e cfg = Some (adminToken, users)"
    and r: "runSync e cfg mode dryRun sched = Some r"
  shows "submissions r =
     (if dryRun then [] else loadJobs (fst (insertToBigQuery e cfg (received r))))"
proof -
  from runSync_discovered [OF d r] obtain s ev where
    p: "runPool (procOf e cfg adminToken mode) WorkerPoolSize (dryRun \<or> gotToken e) users sched
          = Some s" and
    ev: "loadJobs ev = []" and
    f: "received r = drained s" "workerEvents r = wtrace s" and
    m: "mainEvents r = ev @
       (if dryRun
        then [Log (LogDryRun (sum_list (map length (drained s))) (length (drained s))),
              Log (LogFinished mode (sum_list (map length (drained s))))]
        else fst (insertToBigQuery e cfg (drained s)) @
             (case snd (snd (insertToBigQuery e cfg (drained s))) of
                None \<Rightarrow> []
              | Some x \<Rightarrow> [Log (LogUploadError x)]) @
             [Log (LogFinished mode (fst (snd (insertToBigQuery e cfg (drained s)))))])"
    by blast
  from loadJobs_pool [OF runPool_facts(1) [OF p]] have w: "loadJobs (wtrace s) = []" .
  show ?thesis
    by (simp add: submissions_def m f w ev loadJobs_append split: option.splits)
qed

lemma totalRows_discovered:
  assumes d: "discovered e cfg = Some (adminToken, users)"
    and r: "runSync e cfg mode dryRun sched = Some r"
    and c: "dryRun \<or> gotToken e"
  shows "rowsOf e (received r) = totalRows e cfg mode"
  using rowsOf_cong [OF received_discovered(2) [OF d r c], of e] d
  by (simp add: totalRows_def)


section \<open>The claims about the pipeline\<close>

lemma exec_append:
  "exec p cap consumer (xs @ ys) s =
     (case exec p cap consumer xs s of None \<Rightarrow> None | Some s' \<Rightarrow> exec p cap consumer ys s')"
  by (induction xs arbitrary: s) (simp_all split: option.splits)

text \<open>
  C9. A pool of \<open>W\<close> workers (at least one; the program has 50) over any list of
  principals, in any interleaving. However far the run has come:
  no principal has been fetched more often than it was discovered;
  if the pool is done, the principals fetched are exactly the principals discovered,
  each as often as it occurs in the list, so none is omitted and none fetched twice;
  if the pool is not done, some goroutine can take a step, so no interleaving blocks;
  the run can be continued to the end;
  and a run has at most \<open>4 * length users + W + 2\<close> steps, so none goes on forever.
\<close>

theorem every_principal_processed_exactly_once:
  assumes "0 < W" and "isRun p W consumer users sched s"
  shows "mset (fetched s) \<subseteq># mset users \<and>
         (finished consumer s \<longrightarrow> mset (fetched s) = mset users) \<and>
         (\<not> finished consumer s \<longrightarrow> enabled p (length users) consumer s \<noteq> []) \<and>
         (\<exists>rest s'. isRun p W consumer users (sched @ rest) s' \<and> finished consumer s') \<and>
         length sched \<le> 4 * length users + W + 2"
proof -
  note inv = poolInv_isRun [OF assms(2)]
  have 1: "mset (fetched s) \<subseteq># mset users"
    by (rule fetched_submultiset [OF inv])
  have 2: "finished consumer s \<longrightarrow> mset (fetched s) = mset users"
    using pool_finished(1) [OF inv assms(1)] by blast
  have 3: "\<not> finished consumer s \<longrightarrow> enabled p (length users) consumer s \<noteq> []"
  proof
    assume "\<not> finished consumer s"
    from pool_progress [OF inv this] obtain a where
      "step p (length users) consumer a s \<noteq> None" ..
    then have "a \<in> set (enabled p (length users) consumer s)" by (simp add: enabled_iff)
    then show "enabled p (length users) consumer s \<noteq> []" by auto
  qed
  from pool_completes [OF inv, of consumer] obtain rest s' where
    "exec p (length users) consumer rest s = Some s'" "finished consumer s'"
    by blast
  with assms(2) have 4: "\<exists>rest s'. isRun p W consumer users (sched @ rest) s' \<and> finished consumer s'"
    by (auto simp: isRun_def exec_append)
  from work_exec [of p "length users" consumer sched "initPool W users" s] assms(2)
  have 5: "length sched \<le> 4 * length users + W + 2"
    by (simp add: isRun_def work_init)
  from 1 2 3 4 5 show ?thesis by blast
qed

theorem every_principal_processed_exactly_once_witness:
  "(0::nat) < 2 \<and>
   isRun (procOf (sampleEnv ''gcp'' 200) sampleConfig ''admin-token'' ''historical'') 2 True
     sampleUsers samplePoolSched (the samplePoolEnd) \<and>
   finished True (the samplePoolEnd) \<and>
   mset (fetched (the samplePoolEnd)) = mset sampleUsers \<and>
   length samplePoolSched \<le> 4 * length sampleUsers + 2 + 2"
proof -
  have r: "isRun (procOf (sampleEnv ''gcp'' 200) sampleConfig ''admin-token'' ''historical'') 2 True
     sampleUsers samplePoolSched (the samplePoolEnd)"
    unfolding isRun_def samplePoolEnd_def by code_simp
  have f: "finished True (the samplePoolEnd)"
    unfolding samplePoolEnd_def by code_simp
  from every_principal_processed_exactly_once [OF _ r] r f show ?thesis
    by simp
qed

subsection \<open>processUser\<close>

lemma getConversationDetail_events:
  "fst (getConversationDetail e cfg token convID) = [Http (detailRequest cfg token convID)]"
  by (simp add: getConversationDetail_def detailRequest_def Let_def split: sum.splits)

lemma fetchDetails_eq:
  "\<exists>ev. fetchDetails e cfg token cs evs detailed =
           (evs @ ev, detailed @ fetchedDetails e cfg token cs) \<and>
         (\<forall>c \<in> set cs. Http (detailRequest cfg token (ID c)) \<in> set ev) \<and>
         (\<forall>c \<in> set cs. \<forall>err. detailOf e cfg token c = Inl err \<longrightarrow>
              Log (LogDetailFailed (ID c) err) \<in> set ev)"
proof (induction cs arbitrary: evs detailed)
  case Nil
  then show ?case by (simp add: fetchedDetails_def)
next
  case (Cons c cs)
  let ?h = "Http (detailRequest cfg token (ID c))"
  obtain r where g: "getConversationDetail e cfg token (ID c) = ([?h], r)"
    using getConversationDetail_events [of e cfg token "ID c"]
    by (cases "getConversationDetail e cfg token (ID c)") simp
  then have d: "detailOf e cfg token c = r" by (simp add: detailOf_def)
  show ?case
  proof (cases r)
    case (Inl err)
    from Cons.IH [of "evs @ [?h] @ [Log (LogDetailFailed (ID c) err)]" detailed]
    obtain ev where ev:
      "fetchDetails e cfg token cs (evs @ [?h] @ [Log (LogDetailFailed (ID c) err)]) detailed =
         ((evs @ [?h] @ [Log (LogDetailFailed (ID c) err)]) @ ev,
          detailed @ fetchedDetails e cfg token cs)"
      "\<forall>c \<in> set cs. Http (detailRequest cfg token (ID c)) \<in> set ev"
      "\<forall>c \<in> set cs. \<forall>err. detailOf e cfg token c = Inl err \<longrightarrow>
              Log (LogDetailFailed (ID c) err) \<in> set ev"
      by blast
    let ?ev = "[?h, Log (LogDetailFailed (ID c) err)] @ ev"
    have "fetchDetails e cfg token (c # cs) evs detailed =
            (evs @ ?ev, detailed @ fetchedDetails e cfg token (c # cs))"
      using ev(1) by (simp add: g Inl fetchedDetails_def d)
    moreover have "\<forall>c' \<in> set (c # cs). Http (detailRequest cfg token (ID c')) \<in> set ?ev"
      using ev(2) by simp
    moreover have "\<forall>c' \<in> set (c # cs). \<forall>err'. detailOf e cfg token c' = Inl err' \<longrightarrow>
              Log (LogDetailFailed (ID c') err') \<in> set ?ev"
      using ev(3) d Inl by auto
    ultimately show ?thesis by blast
  next
    case (Inr detail)
    from Cons.IH [of "evs @ [?h]" "detailed @ [detail]"]
    obtain ev where ev:
      "fetchDetails e cfg token cs (evs @ [?h]) (detailed @ [detail]) =
         ((evs @ [?h]) @ ev, (detailed @ [detail]) @ fetchedDetails e cfg token cs)"
      "\<forall>c \<in> set cs. Http (detailRequest cfg token (ID c)) \<in> set ev"
      "\<forall>c \<in> set cs. \<forall>err. detailOf e cfg token c = Inl err \<longrightarrow>
              Log (LogDetailFailed (ID c) err) \<in> set ev"
      by blast
    let ?ev = "[?h] @ ev"
    have "fetchDetails e cfg token (c # cs) evs detailed =
            (evs @ ?ev, detailed @ fetchedDetails e cfg token (c # cs))"
      using ev(1) by (simp add: g Inr fetchedDetails_def d)
    moreover have "\<forall>c' \<in> set (c # cs). Http (detailRequest cfg token (ID c')) \<in> set ?ev"
      using ev(2) by simp
    moreover have "\<forall>c' \<in> set (c # cs). \<forall>err'. detailOf e cfg token c' = Inl err' \<longrightarrow>
              Log (LogDetailFailed (ID c') err') \<in> set ?ev"
      using ev(3) d Inr by auto
    ultimately show ?thesis by blast
  qed
qed

text \<open>
  C6. Once the sudo login and the listing have succeeded, \<open>processUser\<close> returns no
  error, whatever the detail fetches do. It returns the details of exactly the listed
  records whose detail fetch succeeded, in the order of the listing: a record whose
  fetch fails is left out and the records after it are still fetched. The detail of
  every listed record is requested, and every failure is logged with the record's ID.
\<close>

theorem detail_failure_skips_only_that_record:
  assumes "sudoLogin e cfg adminToken userID = (ev1, Inr userToken)"
    and "searchConversations e cfg userToken mode = (ev2, Inr conversations)"
  shows "snd (processUser e cfg adminToken user mode userID) =
           Inr (fetchedDetails e cfg userToken conversations) \<and>
         (\<forall>c \<in> set conversations.
            Http (detailRequest cfg userToken (ID c)) \<in>
              set (fst (processUser e cfg adminToken user mode userID))) \<and>
         (\<forall>c \<in> set conversations. \<forall>err.
            detailOf e cfg userToken c = Inl err \<longrightarrow>
            Log (LogDetailFailed (ID c) err) \<in>
              set (fst (processUser e cfg adminToken user mode userID)))"
proof (cases "conversations = []")
  case True
  with assms show ?thesis by (simp add: processUser_def fetchedDetails_def)
next
  case False
  from fetchDetails_eq [of e cfg userToken conversations "[]" "[]"] obtain ev where
    "fetchDetails e cfg userToken conversations [] [] =
       (ev, fetchedDetails e cfg userToken conversations)"
    "\<forall>c \<in> set conversations. Http (detailRequest cfg userToken (ID c)) \<in> set ev"
    "\<forall>c \<in> set conversations. \<forall>err. detailOf e cfg userToken c = Inl err \<longrightarrow>
         Log (LogDetailFailed (ID c) err) \<in> set ev"
    by auto
  with assms False show ?thesis by (simp add: processUser_def)
qed

theorem detail_failure_skips_only_that_record_witness:
  "snd (sudoLogin (sampleEnv ''gcp'' 200) sampleConfig ''admin-token'' ''9'') = Inr ''tok9'' \<and>
   snd (searchConversations (sampleEnv ''gcp'' 200) sampleConfig ''tok9'' ''historical'') =
     Inr [sampleConv ''c1'' JNull, sampleConv ''c9'' JNull, sampleConv ''c2'' JNull] \<and>
   detailOf (sampleEnv ''gcp'' 200) sampleConfig ''tok9'' (sampleConv ''c9'' JNull) =
     Inl (Opaque ''not a conversation'') \<and>
   snd (processUser (sampleEnv ''gcp'' 200) sampleConfig ''admin-token''
          \<lparr>User_ID = 9, User_Email = ''i@x''\<rparr> ''historical'' ''9'') =
     Inr [sampleConv ''c1'' (JArr (PruneAgentMessages [sampleUserNode])), sampleConv ''c2'' JNull] \<and>
   Http (detailRequest sampleConfig ''tok9'' ''c2'') \<in>
     set (fst (processUser (sampleEnv ''gcp'' 200) sampleConfig ''admin-token''
                 \<lparr>User_ID = 9, User_Email = ''i@x''\<rparr> ''historical'' ''9'')) \<and>
   Log (LogDetailFailed ''c9'' (Opaque ''not a conversation'')) \<in>
     set (fst (processUser (sampleEnv ''gcp'' 200) sampleConfig ''admin-token''
                 \<lparr>User_ID = 9, User_Email = ''i@x''\<rparr> ''historical'' ''9''))"
proof -
  let ?e = "sampleEnv ''gcp'' 200"
  let ?cs = "[sampleConv ''c1'' JNull, sampleConv ''c9'' JNull, sampleConv ''c2'' JNull]"
  have s1: "snd (sudoLogin ?e sampleConfig ''admin-token'' ''9'') = Inr ''tok9''"
    by code_simp
  have s2: "snd (searchConversations ?e sampleConfig ''tok9'' ''historical'') = Inr ?cs"
    by code_simp
  have h1: "sudoLogin ?e sampleConfig ''admin-token'' ''9'' =
              (fst (sudoLogin ?e sampleConfig ''admin-token'' ''9''), Inr ''tok9'')"
    using s1 by (simp add: prod_eq_iff)
  have h2: "searchConversations ?e sampleConfig ''tok9'' ''historical'' =
              (fst (searchConversations ?e sampleConfig ''tok9'' ''historical''), Inr ?cs)"
    using s2 by (simp add: prod_eq_iff)
  have d: "detailOf ?e sampleConfig ''tok9'' (sampleConv ''c9'' JNull) =
             Inl (Opaque ''not a conversation'')"
    by code_simp
  have f: "fetchedDetails ?e sampleConfig ''tok9'' ?cs =
             [sampleConv ''c1'' (JArr (PruneAgentMessages [sampleUserNode])), sampleConv ''c2'' JNull]"
    by code_simp
  have i: "ID (sampleConv ''c9'' JNull) = ''c9''" "ID (sampleConv ''c2'' JNull) = ''c2''"
    by (simp_all add: sampleConv_def)
  from detail_failure_skips_only_that_record
         [OF h1 h2, of "\<lparr>User_ID = 9, User_Email = ''i@x''\<rparr>"] s1 s2 d f i
  show ?thesis by simp
qed


subsection \<open>runSync\<close>

lemma no_loadJobs_member:
  "loadJobs evs = [] \<Longrightarrow> reqBody req = Multipart config ndjson \<Longrightarrow> Http req \<notin> set evs"
  using loadJobs_member [of req evs config ndjson] by auto

text \<open>
  C1, as the code has it. In every run the number of load jobs submitted is 0 or 1. It is
  0 when the run is a dry run, when \<open>insertToBigQuery\<close> gets no token for the
  warehouse, when no collected record marshals (in particular when none was collected),
  and when a part of the multipart body cannot be created; it is 1 in every other run.
  When a live run with a token has no row to load, \<open>insertToBigQuery\<close> returns no
  error and the run returns \<^verbatim>\<open>nil\<close>.
\<close>

theorem load_job_submissions:
  assumes "runSync e cfg mode dryRun sched = Some r"
  shows "length (submissions r) =
           (if dryRun \<or> \<not> gotToken e \<or> totalRows e cfg mode = 0 \<or>
               createMetadataPart e \<noteq> None \<or> createDataPart e \<noteq> None
            then 0 else 1) \<and>
         (\<not> dryRun \<and> gotToken e \<and> discovered e cfg \<noteq> None \<and> totalRows e cfg mode = 0 \<longrightarrow>
            result r = Returned None \<and> snd (insertToBigQuery e cfg (received r)) = (0, None))"
proof (cases "discovered e cfg")
  case None
  from runSync_not_discovered [OF None, of mode dryRun sched] assms
  have "submissions r = []" by auto
  moreover from None have "totalRows e cfg mode = 0" by (simp add: totalRows_def)
  ultimately show ?thesis using None by simp
next
  case (Some d)
  then obtain adminToken users where d: "discovered e cfg = Some (adminToken, users)"
    by (cases d) simp
  note sub = submissions_discovered [OF d assms]
  from runSync_discovered [OF d assms] have res: "result r = Returned None" by blast
  show ?thesis
  proof (cases "dryRun \<or> \<not> gotToken e")
    case True
    then show ?thesis
      by (auto simp: sub loadJobs_insertToBigQuery)
  next
    case False
    then have c: "dryRun \<or> gotToken e" and live: "\<not> dryRun" and tok: "gotToken e" by simp_all
    note rows = totalRows_discovered [OF d assms c]
    have 1: "length (submissions r) =
           (if dryRun \<or> \<not> gotToken e \<or> totalRows e cfg mode = 0 \<or>
               createMetadataPart e \<noteq> None \<or> createDataPart e \<noteq> None
            then 0 else 1)"
      using live tok by (simp add: sub loadJobs_insertToBigQuery rows)
    have 2: "snd (insertToBigQuery e cfg (received r)) = (0, None)"
      if "totalRows e cfg mode = 0"
    proof -
      from tok obtain ev0 gcpToken where g: "getGCPToken e = (ev0, Inr gcpToken)"
        by (auto simp: gotToken_iff)
      from insertToBigQuery_token [OF g refl refl, where batches = "received r" and cfg = cfg]
        that rows
      show ?thesis by auto
    qed
    from 1 2 res show ?thesis by blast
  qed
qed

theorem load_job_submissions_witness:
  "sampleRun \<noteq> None \<and> gotToken (sampleEnv ''gcp'' 200) \<and>
   totalRows (sampleEnv ''gcp'' 200) sampleConfig ''historical'' = 2 \<and>
   length (submissions (the sampleRun)) = 1 \<and>
   sampleRunEmpty \<noteq> None \<and>
   discovered (sampleEnv ''gcp'' 200) sampleConfig \<noteq> None \<and>
   totalRows (sampleEnv ''gcp'' 200) sampleConfig ''daily'' = 0 \<and>
   length (submissions (the sampleRunEmpty)) = 0 \<and>
   result (the sampleRunEmpty) = Returned None"
proof -
  let ?e = "sampleEnv ''gcp'' 200"
  have r1: "runSync ?e sampleConfig ''historical'' False sampleSched = Some (the sampleRun)"
    unfolding sampleRun_def by code_simp
  have r2: "runSync ?e sampleConfig ''daily'' False sampleSchedEmpty = Some (the sampleRunEmpty)"
    unfolding sampleRunEmpty_def by code_simp
  have n: "sampleRun \<noteq> None" "sampleRunEmpty \<noteq> None"
    using r1 r2 by (metis option.distinct(1) sampleRun_def sampleRunEmpty_def)+
  have g: "gotToken ?e" by code_simp
  have t1: "totalRows ?e sampleConfig ''historical'' = 2" by code_simp
  have t2: "totalRows ?e sampleConfig ''daily'' = 0" by code_simp
  have d: "discovered ?e sampleConfig \<noteq> None" by code_simp
  have p: "createMetadataPart ?e = None" "createDataPart ?e = None"
    by (simp_all add: sampleEnv_def)
  from load_job_submissions [OF r1] load_job_submissions [OF r2] n g t1 t2 d p
  show ?thesis by simp
qed

text \<open>The claim as written fails on a live run that has collected two records but
  gets no token: it submits no load job.\<close>

theorem load_job_submissions_counterexample:
  "\<not> (loadJobCount sampleRunNoToken =
        Some (if False \<or> totalRows (sampleEnv [] 200) sampleConfig ''historical'' = 0
              then 0 else 1))"
proof -
  have "loadJobCount sampleRunNoToken = Some 0"
    unfolding sampleRunNoToken_def by code_simp
  moreover have "totalRows (sampleEnv [] 200) sampleConfig ''historical'' = 2"
    by code_simp
  ultimately show ?thesis by simp
qed


text \<open>
  C2. A run in which the calling goroutine receives from the results channel (a dry
  run, or a live run with a token). \<open>processUser\<close> is called on every discovered
  principal, whatever happens to the others, and the batches received are exactly the
  results of the calls that succeeded with at least one record: a failed call and a call
  that returns no record contribute nothing. In particular, with three principals of
  which the first fails, the second returns no record and the third returns two
  records, exactly the batch of these two records is received; and if the run is live,
  both records marshal and the parts of the body can be created, exactly one load job
  is submitted, whose data is the two marshalled records, a line each.
\<close>

theorem failed_and_empty_principals_contribute_nothing:
  assumes run: "runSync e cfg mode dryRun sched = Some r"
    and disc: "discovered e cfg = Some (adminToken, users)"
    and cons: "dryRun \<or> gotToken e"
  shows "mset (processed r) = mset users \<and>
         mset (received r) = mset (batchesOf (procOf e cfg adminToken mode) users) \<and>
         (\<forall>A B C errA c1 c2.
            users = [A, B, C] \<and>
            snd (procOf e cfg adminToken mode A) = Inl errA \<and>
            snd (procOf e cfg adminToken mode B) = Inr [] \<and>
            snd (procOf e cfg adminToken mode C) = Inr [c1, c2] \<longrightarrow>
            received r = [ [c1, c2] ] \<and>
            (\<forall>b1 b2.
               \<not> dryRun \<and> marshal e c1 = Inr b1 \<and> marshal e c2 = Inr b2 \<and>
               createMetadataPart e = None \<and> createDataPart e = None \<longrightarrow>
               submissions r = [b1 @ [CHR 0x0A] @ b2 @ [CHR 0x0A] ]))"
proof -
  note rec = received_discovered(2) [OF disc run cons]
  have 3: "received r = [ [c1, c2] ] \<and>
            (\<forall>b1 b2.
               \<not> dryRun \<and> marshal e c1 = Inr b1 \<and> marshal e c2 = Inr b2 \<and>
               createMetadataPart e = None \<and> createDataPart e = None \<longrightarrow>
               submissions r = [b1 @ [CHR 0x0A] @ b2 @ [CHR 0x0A] ])"
    if u: "users = [A, B, C]"
      and a: "snd (procOf e cfg adminToken mode A) = Inl errA"
      and b: "snd (procOf e cfg adminToken mode B) = Inr []"
      and c: "snd (procOf e cfg adminToken mode C) = Inr [c1, c2]"
    for A B C errA c1 c2
  proof -
    have "batchesOf (procOf e cfg adminToken mode) users = [ [c1, c2] ]"
      by (simp add: batchesOf_def u a b c)
    with rec have rc: "received r = [ [c1, c2] ]" by simp
    have "submissions r = [b1 @ [CHR 0x0A] @ b2 @ [CHR 0x0A] ]"
      if live: "\<not> dryRun" and m: "marshal e c1 = Inr b1" "marshal e c2 = Inr b2"
        and p: "createMetadataPart e = None" "createDataPart e = None"
      for b1 b2
    proof -
      from cons live have tok: "gotToken e" by simp
      have "rowsOf e [ [c1, c2] ] = 2" by (simp add: rowsOf_def marshals_def m)
      moreover have "ndjsonOf e [c1, c2] = b1 @ [CHR 0x0A] @ b2 @ [CHR 0x0A]"
        by (simp add: ndjsonOf_def m)
      ultimately show ?thesis
        using live tok p
        by (simp add: submissions_discovered [OF disc run] rc loadJobs_insertToBigQuery)
    qed
    with rc show ?thesis by blast
  qed
  from received_discovered(1) [OF disc run] rec 3 show ?thesis by blast
qed

theorem failed_and_empty_principals_contribute_nothing_witness:
  "sampleRun \<noteq> None \<and>
   discovered (sampleEnv ''gcp'' 200) sampleConfig = Some (''admin-token'', sampleUsers) \<and>
   gotToken (sampleEnv ''gcp'' 200) \<and>
   snd (procOf (sampleEnv ''gcp'' 200) sampleConfig ''admin-token'' ''historical''
          (sampleUsers ! 0)) =
     Inl (Wrap ''search failed'' (Status ''search failed'' 500 [])) \<and>
   snd (procOf (sampleEnv ''gcp'' 200) sampleConfig ''admin-token'' ''historical''
          (sampleUsers ! 1)) = Inr [] \<and>
   snd (procOf (sampleEnv ''gcp'' 200) sampleConfig ''admin-token'' ''historical''
          (sampleUsers ! 2)) =
     Inr [sampleConv ''c1'' (JArr (PruneAgentMessages [sampleUserNode])), sampleConv ''c2'' JNull] \<and>
   mset (processed (the sampleRun)) = mset sampleUsers \<and>
   received (the sampleRun) =
     [ [sampleConv ''c1'' (JArr (PruneAgentMessages [sampleUserNode])), sampleConv ''c2'' JNull] ] \<and>
   submissions (the sampleRun) = [''c1'' @ [CHR 0x0A] @ ''c2'' @ [CHR 0x0A] ]"
proof -
  let ?e = "sampleEnv ''gcp'' 200"
  let ?p = "procOf ?e sampleConfig ''admin-token'' ''historical''"
  let ?c1 = "sampleConv ''c1'' (JArr (PruneAgentMessages [sampleUserNode]))"
  let ?c2 = "sampleConv ''c2'' JNull"
  have r: "runSync ?e sampleConfig ''historical'' False sampleSched = Some (the sampleRun)"
    unfolding sampleRun_def by code_simp
  then have n: "sampleRun \<noteq> None"
    by (metis option.distinct(1) sampleRun_def)
  have d: "discovered ?e sampleConfig = Some (''admin-token'', sampleUsers)" by code_simp
  have g: "gotToken ?e" by code_simp
  have u: "sampleUsers = [sampleUsers ! 0, sampleUsers ! 1, sampleUsers ! 2]"
    by (simp add: sampleUsers_def)
  have a: "snd (?p (sampleUsers ! 0)) =
             Inl (Wrap ''search failed'' (Status ''search failed'' 500 []))"
    by code_simp
  have b: "snd (?p (sampleUsers ! 1)) = Inr []" by code_simp
  have c: "snd (?p (sampleUsers ! 2)) = Inr [?c1, ?c2]" by code_simp
  have m: "marshal ?e ?c1 = Inr ''c1''" "marshal ?e ?c2 = Inr ''c2''"
    by (simp_all add: sampleEnv_def sampleConv_def)
  have p: "createMetadataPart ?e = None" "createDataPart ?e = None"
    by (simp_all add: sampleEnv_def)
  from failed_and_empty_principals_contribute_nothing [OF r d] g
  have t: "mset (processed (the sampleRun)) = mset sampleUsers"
    and s: "\<forall>A B C errA c1 c2.
            sampleUsers = [A, B, C] \<and>
            snd (?p A) = Inl errA \<and> snd (?p B) = Inr [] \<and> snd (?p C) = Inr [c1, c2] \<longrightarrow>
            received (the sampleRun) = [ [c1, c2] ] \<and>
            (\<forall>b1 b2.
               \<not> False \<and> marshal ?e c1 = Inr b1 \<and> marshal ?e c2 = Inr b2 \<and>
               createMetadataPart ?e = None \<and> createDataPart ?e = None \<longrightarrow>
               submissions (the sampleRun) = [b1 @ [CHR 0x0A] @ b2 @ [CHR 0x0A] ])"
    by blast+
  from s u a b c have
    "received (the sampleRun) = [ [?c1, ?c2] ] \<and>
            (\<forall>b1 b2.
               \<not> False \<and> marshal ?e ?c1 = Inr b1 \<and> marshal ?e ?c2 = Inr b2 \<and>
               createMetadataPart ?e = None \<and> createDataPart ?e = None \<longrightarrow>
               submissions (the sampleRun) = [b1 @ [CHR 0x0A] @ b2 @ [CHR 0x0A] ])"
    by blast
  with m p have "received (the sampleRun) = [ [?c1, ?c2] ]"
    "submissions (the sampleRun) = [''c1'' @ [CHR 0x0A] @ ''c2'' @ [CHR 0x0A] ]"
    by blast+
  with n d g a b c t show ?thesis by blast
qed

text \<open>
  C7, as the code has it. A run in which a load job was sent and the endpoint answered
  with a status other than 200. \<open>insertToBigQuery\<close> returns the row count with an
  error that carries the status and the body of the answer. \<open>runSync\<close> logs this error,
  logs that the sync finished, and returns \<^verbatim>\<open>nil\<close>: the error is not the result of the
  run. The load job was submitted once, and after it the run does nothing but write
  these two log lines: there is no second attempt and the records are stored nowhere.
\<close>

theorem load_failure_is_logged_and_run_returns_nil:
  assumes run: "runSync e cfg mode dryRun sched = Some r"
    and sent: "Http req \<in> set (mainEvents r)"
    and body: "reqBody req = Multipart config ndjson"
    and resp: "client_Do e req = Inr resp"
    and bad: "status resp \<noteq> 200"
  shows "snd (insertToBigQuery e cfg (received r)) =
           (rowsOf e (received r),
            Some (Status ''BQ job creation failed'' (status resp) (respBody resp))) \<and>
         result r = Returned None \<and>
         submissions r = [ndjson] \<and>
         (\<exists>pre. loadJobs pre = [] \<and>
            mainEvents r = pre @
              [Http req,
               Log (LogUploadError
                      (Status ''BQ job creation failed'' (status resp) (respBody resp))),
               Log (LogFinished mode (rowsOf e (received r)))])"
proof -
  from loadJobs_member [OF sent body] have nonempty: "ndjson \<in> set (submissions r)"
    by (simp add: submissions_def loadJobs_append)
  have "discovered e cfg \<noteq> None"
  proof
    assume "discovered e cfg = None"
    from runSync_not_discovered [OF this, of mode dryRun sched] run
    have "submissions r = []" by auto
    with nonempty show False by simp
  qed
  then obtain adminToken users where d: "discovered e cfg = Some (adminToken, users)"
    by auto
  note sub = submissions_discovered [OF d run]
  from nonempty sub have live: "\<not> dryRun" by (auto split: if_splits)
  let ?ins = "insertToBigQuery e cfg (received r)"
  from nonempty sub live have
    tok: "gotToken e" and rows: "rowsOf e (received r) \<noteq> 0" and
    parts: "createMetadataPart e = None" "createDataPart e = None" and
    nd: "ndjson = ndjsonOf e (concat (received r))"
    by (auto simp: loadJobs_insertToBigQuery split: if_splits)
  from tok obtain ev0 gcpToken where g: "getGCPToken e = (ev0, Inr gcpToken)"
    by (auto simp: gotToken_iff)
  let ?req = "loadRequest cfg gcpToken ndjson"
  let ?n = "rowsOf e (received r)"
  from insertToBigQuery_token [OF g refl refl, where batches = "received r" and cfg = cfg]
    rows parts nd
  obtain pre where pre: "loadJobs pre = []" and
    ins: "?ins =
       (case client_Do e ?req of
          Inl err \<Rightarrow>
            (pre @ [Log (LogAttempting ?n), Log (LogCreatingJob (reqURL ?req)), Http ?req],
             ?n, Some err)
        | Inr resp \<Rightarrow>
            if status resp \<noteq> 200
            then (pre @ [Log (LogAttempting ?n), Log (LogCreatingJob (reqURL ?req)), Http ?req],
                  ?n, Some (Status ''BQ job creation failed'' (status resp) (respBody resp)))
            else (pre @ [Log (LogAttempting ?n), Log (LogCreatingJob (reqURL ?req)), Http ?req,
                         Log (LogJobCreated (respBody resp))],
                  ?n, None))"
    by auto
  from runSync_discovered [OF d run] live obtain ev where
    ev: "loadJobs ev = []" and res: "result r = Returned None" and
    main: "mainEvents r = ev @ fst ?ins @
             (case snd (snd ?ins) of None \<Rightarrow> [] | Some x \<Rightarrow> [Log (LogUploadError x)]) @
             [Log (LogFinished mode (fst (snd ?ins)))]"
    by auto
  have "Http req \<in> set (fst ?ins)"
    using sent no_loadJobs_member [OF ev body]
    by (auto simp: main split: option.splits)
  then have "Http req \<in> set [Http ?req]"
    using no_loadJobs_member [OF pre body]
    by (auto simp: ins split: sum.splits if_splits)
  then have req: "req = ?req" by simp
  with resp bad have ins': "?ins =
      (pre @ [Log (LogAttempting ?n), Log (LogCreatingJob (reqURL ?req)), Http req],
       ?n, Some (Status ''BQ job creation failed'' (status resp) (respBody resp)))"
    by (simp add: ins)
  let ?pre = "ev @ pre @ [Log (LogAttempting ?n), Log (LogCreatingJob (reqURL ?req))]"
  have 1: "snd ?ins =
      (?n, Some (Status ''BQ job creation failed'' (status resp) (respBody resp)))"
    by (simp add: ins')
  have 3: "submissions r = [ndjson]"
    using live tok rows parts nd by (simp add: sub loadJobs_insertToBigQuery)
  have "loadJobs ?pre = [] \<and>
        mainEvents r = ?pre @
              [Http req,
               Log (LogUploadError
                      (Status ''BQ job creation failed'' (status resp) (respBody resp))),
               Log (LogFinished mode ?n)]"
    by (simp add: main ins' loadJobs_append ev pre)
  then have 4: "\<exists>pre. loadJobs pre = [] \<and>
            mainEvents r = pre @
              [Http req,
               Log (LogUploadError
                      (Status ''BQ job creation failed'' (status resp) (respBody resp))),
               Log (LogFinished mode ?n)]"
    by blast
  from 1 res 3 4 show ?thesis by blast
qed

theorem load_failure_is_logged_and_run_returns_nil_witness:
  "sampleRunRejected \<noteq> None \<and>
   Http sampleLoadRequest \<in> set (mainEvents (the sampleRunRejected)) \<and>
   reqBody sampleLoadRequest =
     Multipart
       \<lparr>projectId = ''p'', datasetId = ''d'', tableId = ''t'',
        sourceFormat = ''NEWLINE_DELIMITED_JSON'', writeDisposition = ''WRITE_APPEND''\<rparr>
       (''c1'' @ [CHR 0x0A] @ ''c2'' @ [CHR 0x0A]) \<and>
   client_Do (sampleEnv ''gcp'' 500) sampleLoadRequest =
     Inr \<lparr>status = 500, respBody = ''bq says'', readErr = None\<rparr> \<and>
   snd (insertToBigQuery (sampleEnv ''gcp'' 500) sampleConfig (received (the sampleRunRejected))) =
     (2, Some (Status ''BQ job creation failed'' 500 ''bq says'')) \<and>
   result (the sampleRunRejected) = Returned None \<and>
   submissions (the sampleRunRejected) = [''c1'' @ [CHR 0x0A] @ ''c2'' @ [CHR 0x0A] ]"
proof -
  let ?e = "sampleEnv ''gcp'' 500"
  let ?resp = "\<lparr>status = 500, respBody = ''bq says'', readErr = None\<rparr>"
  have r: "runSync ?e sampleConfig ''historical'' False sampleSched = Some (the sampleRunRejected)"
    unfolding sampleRunRejected_def by code_simp
  then have n: "sampleRunRejected \<noteq> None"
    by (metis option.distinct(1) sampleRunRejected_def)
  have s: "Http sampleLoadRequest \<in> set (mainEvents (the sampleRunRejected))"
    unfolding sampleRunRejected_def by code_simp
  have b: "reqBody sampleLoadRequest =
     Multipart
       \<lparr>projectId = ''p'', datasetId = ''d'', tableId = ''t'',
        sourceFormat = ''NEWLINE_DELIMITED_JSON'', writeDisposition = ''WRITE_APPEND''\<rparr>
       (''c1'' @ [CHR 0x0A] @ ''c2'' @ [CHR 0x0A])"
    by (simp add: sampleLoadRequest_def loadRequest_def sampleConfig_def)
  have c: "client_Do ?e sampleLoadRequest = Inr ?resp"
    by (simp add: sampleEnv_def sampleDo_def b)
  have k: "rowsOf ?e (received (the sampleRunRejected)) = 2"
    unfolding sampleRunRejected_def by code_simp
  have "status ?resp \<noteq> 200" by simp
  from load_failure_is_logged_and_run_returns_nil [OF r s b c this] n s b c k
  show ?thesis by simp
qed

text \<open>The claim as written fails on the sample run whose load job is answered with
  500: \<open>insertToBigQuery\<close> returns the error, and the result of the run is \<^verbatim>\<open>nil\<close>.\<close>

theorem load_failure_is_the_result_counterexample:
  "snd (insertToBigQuery (sampleEnv ''gcp'' 500) sampleConfig (received (the sampleRunRejected))) =
     (2, Some (Status ''BQ job creation failed'' 500 ''bq says'')) \<and>
   map_option result sampleRunRejected = Some (Returned None) \<and>
   map_option result sampleRunRejected \<noteq>
     Some (Returned (Some (Status ''BQ job creation failed'' 500 ''bq says'')))"
proof -
  have i: "snd (insertToBigQuery (sampleEnv ''gcp'' 500) sampleConfig
               (received (the sampleRunRejected))) =
     (2, Some (Status ''BQ job creation failed'' 500 ''bq says''))"
    unfolding sampleRunRejected_def by code_simp
  have m: "map_option result sampleRunRejected = Some (Returned None)"
    unfolding sampleRunRejected_def by code_simp
  have n: "map_option result sampleRunRejected \<noteq>
     Some (Returned (Some (Status ''BQ job creation failed'' 500 ''bq says'')))"
    unfolding m by simp
  from i m n show ?thesis by blast
qed


end
